theory Spec2Isabelle
  imports Complex_Main "HOL-Library.Sublist"
begin

chapter \<open>The tsconfig loader of remix-dev\<close>

text \<open>
  A model of \<open>packages/remix-dev/compiler/utils/tsconfig/tsConfigLoader.ts\<close>: the
  upward search for \<open>tsconfig.json\<close> or \<open>jsconfig.json\<close>, the resolution of
  \<open>extends\<close>, and the defaults that \<open>writeConfigurationDefaults\<close> writes back.
  Line numbers refer to that file. Thrown errors are values (\<open>Inl\<close>), a call that
  never returns is \<open>None\<close>, and the calls into Node (\<open>fs\<close>, \<open>path\<close>), into
  \<open>json5\<close>, \<open>strip-bom\<close> and \<open>colors\<close> are parameters or, for \<open>path\<close>,
  modelled after the POSIX implementation.
\<close>

section \<open>JavaScript values\<close>

text \<open>
  The values a parsed configuration document is made of. An object is a map from property
  names to values (the order of the keys is not kept); \<open>undefined\<close> is not a constructor:
  a value that may be \<open>undefined\<close> has type \<open>jsval option\<close>, with \<open>None\<close> for
  \<open>undefined\<close>, and an absent property reads as \<open>None\<close>. Numbers are reals (the
  \<open>NaN\<close> and infinities of JSON5 are left out). An array is an object too: next to
  its elements it carries the named properties that have been assigned to it, none when
  it comes out of the parser (\<open>JArr\<close>).
\<close>

datatype jsval =
    JNull
  | JBool bool
  | JNum real
  | JStr string
  | JArrP "jsval list" "string \<Rightarrow> jsval option"
  | JObj "string \<Rightarrow> jsval option"

abbreviation JArr :: "jsval list \<Rightarrow> jsval" where
  "JArr xs \<equiv> JArrP xs Map.empty"

datatype error = TypeError | SyntaxError | IOError

text \<open>
  Truthiness, as \<open>if (v)\<close>, \<open>a && b\<close> and \<open>a || b\<close> test it.
\<close>

fun truthy :: "jsval option \<Rightarrow> bool" where
  "truthy None = False"
| "truthy (Some JNull) = False"
| "truthy (Some (JBool b)) = b"
| "truthy (Some (JNum r)) = (r \<noteq> 0)"
| "truthy (Some (JStr s)) = (s \<noteq> [])"
| "truthy (Some (JArrP xs ps)) = True"
| "truthy (Some (JObj m)) = True"

text \<open>
  \<open>a === b\<close> between a literal of the program and a value of the configuration:
  primitives are compared by value, while an array or an object of the configuration is
  never the same reference as a literal.
\<close>

definition strictEq :: "jsval option \<Rightarrow> jsval option \<Rightarrow> bool" where
  "strictEq a b =
    (case a of
       Some (JArrP xs ps) \<Rightarrow> False
     | Some (JObj m) \<Rightarrow> False
     | _ \<Rightarrow> a = b)"

text \<open>
  Reading a property, \<open>v.k\<close> or \<open>v[k]\<close>: a \<open>TypeError\<close> on \<open>undefined\<close> and
  \<open>null\<close>, the stored value on an object. The names the program reads (\<open>extends\<close>,
  \<open>compilerOptions\<close>, \<open>baseUrl\<close>, \<open>paths\<close> and the names of the option table) are
  neither indices nor inherited properties of strings, numbers, booleans or arrays, so
  reading them gives \<open>undefined\<close> on a primitive, and on an array the named property
  if one was assigned.
\<close>

fun getProp :: "jsval option \<Rightarrow> string \<Rightarrow> error + jsval option" where
  "getProp None k = Inl TypeError"
| "getProp (Some JNull) k = Inl TypeError"
| "getProp (Some (JObj m)) k = Inr (m k)"
| "getProp (Some (JArrP xs ps)) k = Inr (ps k)"
| "getProp (Some v) k = Inr None"

text \<open>
  \<open>k in v\<close>: a \<open>TypeError\<close> unless \<open>v\<close> is an object or an array. The names
  the program tests (\<open>include\<close> and the names of the option table) are neither
  indices nor inherited properties, so an array has one of them only as a named property
  that was assigned to it.
\<close>

fun hasProp :: "string \<Rightarrow> jsval option \<Rightarrow> error + bool" where
  "hasProp k (Some (JObj m)) = Inr (m k \<noteq> None)"
| "hasProp k (Some (JArrP xs ps)) = Inr (ps k \<noteq> None)"
| "hasProp k v = Inl TypeError"

text \<open>
  The assignment \<open>v[k] = x\<close> in module (strict) code: a \<open>TypeError\<close> on
  \<open>undefined\<close>, \<open>null\<close> and primitives. On an array the names the program assigns
  are named properties: the array keeps them, and they are read back later.
\<close>

fun setProp :: "jsval option \<Rightarrow> string \<Rightarrow> jsval \<Rightarrow> error + jsval" where
  "setProp (Some (JObj m)) k x = Inr (JObj (m(k \<mapsto> x)))"
| "setProp (Some (JArrP xs ps)) k x = Inr (JArrP xs (ps(k \<mapsto> x)))"
| "setProp v k x = Inl TypeError"

section \<open>The table of desired compiler options\<close>

datatype check = Suggested jsval | Required jsval string

definition getDesiredCompilerOptions :: "(string \<times> check) list" where
  "getDesiredCompilerOptions =
    [(''target'', Suggested (JStr ''ES2019'')),
     (''lib'', Suggested (JArr [JStr ''DOM'', JStr ''DOM.Iterable'', JStr ''ES2019''])),
     (''allowJs'', Suggested (JBool True)),
     (''strict'', Suggested (JBool True)),
     (''baseUrl'', Suggested (JStr ''.'')),
     (''forceConsistentCasingInFileNames'', Suggested (JBool True)),
     (''esModuleInterop'', Required (JBool True) ''requirement for esbuild''),
     (''isolatedModules'', Required (JBool True) ''requirement for esbuild''),
     (''jsx'', Required (JStr ''react-jsx'') ''requirement for esbuild''),
     (''moduleResolution'', Required (JStr ''node'') ''to match esbuild''),
     (''resolveJsonModule'', Required (JBool True) ''to match esbuild''),
     (''noEmit'', Required (JBool True)
        ''Remix takes care of building everything in `remix build`.'')]"

section \<open>writeConfigurationDefaults\<close>

text \<open>
  The two functions of the module \<open>colors\<close> that \<open>writeConfigurationDefaults\<close>
  calls; \<open>colors.bold\<close> is given the value of an option as it is.
\<close>

record printers =
  blue :: "string \<Rightarrow> string"
  bold :: "jsval \<Rightarrow> string"

text \<open>
  The state of the loop over the table: the configuration (mutated in place by the
  source, passed along here) and the two lists of notes.
\<close>

record reconciling =
  config :: "jsval option"
  suggestedActions :: "string list"
  requiredActions :: "string list"

text \<open>
  \<open>config.compilerOptions[optionKey] = value\<close>: the assignment changes the object that
  \<open>config.compilerOptions\<close> refers to; the model stores the changed object back under
  \<open>compilerOptions\<close>.
\<close>

definition assignCompilerOption :: "jsval option \<Rightarrow> string \<Rightarrow> jsval \<Rightarrow> error + jsval option" where
  "assignCompilerOption cfg optionKey x =
    (case getProp cfg ''compilerOptions'' of
       Inl e \<Rightarrow> Inl e
     | Inr co \<Rightarrow>
        (case setProp co optionKey x of
           Inl e \<Rightarrow> Inl e
         | Inr co' \<Rightarrow>
            (case setProp cfg ''compilerOptions'' co' of
               Inl e \<Rightarrow> Inl e
             | Inr cfg' \<Rightarrow> Inr (Some cfg'))))"

text \<open>The texts pushed on \<open>suggestedActions\<close> and on \<open>requiredActions\<close>.\<close>

definition suggestedNote :: "printers \<Rightarrow> string \<Rightarrow> jsval \<Rightarrow> string" where
  "suggestedNote P optionKey s = blue P optionKey @ '' was set to '' @ bold P s"

definition requiredNote :: "printers \<Rightarrow> string \<Rightarrow> jsval \<Rightarrow> string \<Rightarrow> string" where
  "requiredNote P optionKey v r =
     blue P optionKey @ '' was set to '' @ bold P v @ '' ('' @ r @ '')''"

text \<open>The body of the loop (lines 211 to 235) for one entry of the table.\<close>

fun applyCheck :: "printers \<Rightarrow> reconciling \<Rightarrow> string \<times> check \<Rightarrow> error + reconciling" where
  "applyCheck P st (optionKey, Suggested s) =
    (case hasProp optionKey (config st) of
       Inl e \<Rightarrow> Inl e
     | Inr present \<Rightarrow>
        if present then Inr st
        else
          (case getProp (config st) ''compilerOptions'' of
             Inl e \<Rightarrow> Inl e
           | Inr co \<Rightarrow>
              (case getProp co optionKey of
                 Inl e \<Rightarrow> Inl e
               | Inr (Some optionValue) \<Rightarrow> Inr st
               | Inr None \<Rightarrow>
                  Inr (st\<lparr>suggestedActions := suggestedActions st @
                         [suggestedNote P optionKey s]\<rparr>))))"
| "applyCheck P st (optionKey, Required v r) =
    (case getProp (config st) ''compilerOptions'' of
       Inl e \<Rightarrow> Inl e
     | Inr co \<Rightarrow>
        (case getProp co optionKey of
           Inl e \<Rightarrow> Inl e
         | Inr optionValue \<Rightarrow>
            if \<not> strictEq (Some v) optionValue then
              (case assignCompilerOption (config st) optionKey v of
                 Inl e \<Rightarrow> Inl e
               | Inr cfg' \<Rightarrow>
                  Inr (st\<lparr>config := cfg', requiredActions := requiredActions st @
                         [requiredNote P optionKey v r]\<rparr>))
            else Inr st))"

text \<open>The loop: the entries in the order of the table, stopping at the first error.\<close>

fun applyChecks :: "printers \<Rightarrow> reconciling \<Rightarrow> (string \<times> check) list \<Rightarrow> error + reconciling" where
  "applyChecks P st [] = Inr st"
| "applyChecks P st (c # cs) =
    (case applyCheck P st c of Inl e \<Rightarrow> Inl e | Inr st' \<Rightarrow> applyChecks P st' cs)"

text \<open>
  The whole function, up to the report on the console: the loop, the \<open>include\<close>
  default, and the write of the file when a note was recorded. \<open>writeFileSync\<close> is
  \<open>fs.writeFileSync\<close>: it is given the path and the configuration whose text
  \<open>JSON.stringify(config, null, 2)\<close> is the content (the text leaves out the named
  properties of arrays), and it answers \<open>Some e\<close> when the write throws \<open>e\<close>, which
  ends the function. The result holds the configuration as the function leaves it, the
  two lists of notes, and the write it made, if any. The report that follows the write
  (lines 253 to 275) prints the two lists and changes nothing else; it is not modelled
  further.
\<close>

record reconciled =
  config_after :: "jsval option"
  suggested_notes :: "string list"
  required_notes :: "string list"
  written :: "(string \<times> jsval) option"

definition includeDefault :: jsval where
  "includeDefault = JArr [JStr ''remix.env.d.ts'', JStr ''**/*.ts'', JStr ''**/*.tsx'']"

definition includeNote :: "printers \<Rightarrow> string" where
  "includeNote P = blue P ''include'' @ '' was set to '' @
     bold P (JStr (''['' @ [CHR 0x27] @ ''remix.env.d.ts'' @ [CHR 0x27] @ '', '' @
                   [CHR 0x27] @ ''**/*.ts'' @ [CHR 0x27] @ '', '' @
                   [CHR 0x27] @ ''**/*.tsx'' @ [CHR 0x27] @ '']''))"

definition applyInclude :: "printers \<Rightarrow> reconciling \<Rightarrow> error + reconciling" where
  "applyInclude P st =
    (case hasProp ''include'' (config st) of
       Inl e \<Rightarrow> Inl e
     | Inr present \<Rightarrow>
        if present then Inr st
        else
          (case setProp (config st) ''include'' includeDefault of
             Inl e \<Rightarrow> Inl e
           | Inr cfg' \<Rightarrow>
              Inr (st\<lparr>config := Some cfg',
                      suggestedActions := suggestedActions st @ [includeNote P]\<rparr>)))"

definition finish ::
  "(string \<Rightarrow> jsval \<Rightarrow> error option) \<Rightarrow> string \<Rightarrow> reconciling \<Rightarrow> error + reconciled"
where
  "finish writeFileSync configPath st =
    (if length (suggestedActions st) < 1 \<and> length (requiredActions st) < 1 then
       Inr \<lparr>config_after = config st, suggested_notes = suggestedActions st,
            required_notes = requiredActions st, written = None\<rparr>
     else
       (case config st of
          None \<Rightarrow> Inl TypeError
        | Some c \<Rightarrow>
           (case writeFileSync configPath c of
              Some e \<Rightarrow> Inl e
            | None \<Rightarrow>
               Inr \<lparr>config_after = config st, suggested_notes = suggestedActions st,
                    required_notes = requiredActions st,
                    written = Some (configPath, c)\<rparr>)))"

definition writeConfigurationDefaults ::
  "printers \<Rightarrow> (string \<Rightarrow> jsval \<Rightarrow> error option) \<Rightarrow> jsval option \<Rightarrow> string
     \<Rightarrow> error + reconciled"
where
  "writeConfigurationDefaults P writeFileSync cfg configPath =
    (case applyChecks P \<lparr>config = cfg, suggestedActions = [], requiredActions = []\<rparr>
            getDesiredCompilerOptions of
       Inl e \<Rightarrow> Inl e
     | Inr st \<Rightarrow>
        (case applyInclude P st of
           Inl e \<Rightarrow> Inl e
         | Inr st' \<Rightarrow> finish writeFileSync configPath st'))"

section \<open>The path module (POSIX)\<close>

text \<open>
  \<open>path.join\<close>, \<open>path.dirname\<close> and \<open>path.resolve\<close> of Node's \<open>path.posix\<close>.
  Node normalises a path character by character; the model does the same segment by
  segment: the path is cut at every \<open>/\<close>, empty segments and \<open>.\<close> are skipped, \<open>..\<close>
  removes the segment before it unless there is none or it is \<open>..\<close> itself, in which
  case \<open>..\<close> is kept when the path is relative and skipped when it is absolute.
\<close>

fun splitSlash :: "string \<Rightarrow> string list" where
  "splitSlash [] = [[]]"
| "splitSlash (c # cs) =
    (if c = CHR ''/'' then [] # splitSlash cs
     else (case splitSlash cs of [] \<Rightarrow> [[c]] | seg # segs \<Rightarrow> (c # seg) # segs))"

fun joinSlash :: "string list \<Rightarrow> string" where
  "joinSlash [] = []"
| "joinSlash [seg] = seg"
| "joinSlash (seg # segs) = seg @ ''/'' @ joinSlash segs"

fun normalizeSegments :: "bool \<Rightarrow> string list \<Rightarrow> string list \<Rightarrow> string list" where
  "normalizeSegments allowAboveRoot res [] = res"
| "normalizeSegments allowAboveRoot res (seg # segs) =
    (if seg = [] \<or> seg = ''.'' then normalizeSegments allowAboveRoot res segs
     else if seg = ''..'' then
       (if res \<noteq> [] \<and> last res \<noteq> ''..'' then
          normalizeSegments allowAboveRoot (butlast res) segs
        else if allowAboveRoot then normalizeSegments allowAboveRoot (res @ [''..'']) segs
        else normalizeSegments allowAboveRoot res segs)
     else normalizeSegments allowAboveRoot (res @ [seg]) segs)"

definition normalizeString :: "string \<Rightarrow> bool \<Rightarrow> string" where
  "normalizeString path allowAboveRoot =
     joinSlash (normalizeSegments allowAboveRoot [] (splitSlash path))"

definition normalize :: "string \<Rightarrow> string" where
  "normalize path =
    (if path = [] then ''.''
     else
       let isAbsolute = (hd path = CHR ''/'');
           trailingSeparator = (last path = CHR ''/'');
           p = normalizeString path (\<not> isAbsolute)
       in if p = [] then (if isAbsolute then ''/'' else if trailingSeparator then ''./'' else ''.'')
          else (if isAbsolute then ''/'' else []) @ p @ (if trailingSeparator then ''/'' else []))"

text \<open>\<open>path.join(...args)\<close>: the non-empty arguments, joined by \<open>/\<close> and normalised.\<close>

definition path_join :: "string list \<Rightarrow> string" where
  "path_join args =
    (let parts = filter (\<lambda>arg. arg \<noteq> []) args
     in if parts = [] then ''.'' else normalize (joinSlash parts))"

text \<open>
  \<open>path.dirname(path)\<close>: the path up to the last \<open>/\<close> that is followed by a name,
  trailing slashes aside, looking at indices 1 and up.
\<close>

definition dirname :: "string \<Rightarrow> string" where
  "dirname path =
    (if path = [] then ''.''
     else
       let hasRoot = (hd path = CHR ''/'');
           r = dropWhile (\<lambda>c. c \<noteq> CHR ''/'') (dropWhile (\<lambda>c. c = CHR ''/'') (rev (tl path)))
       in if r = [] then (if hasRoot then ''/'' else ''.'')
          else if hasRoot \<and> length r = 1 then ''//''
          else take (length r) path)"

text \<open>
  \<open>path.resolve(path)\<close> with one argument; \<open>processCwd\<close> is \<open>process.cwd()\<close>.
\<close>

definition resolve :: "string \<Rightarrow> string \<Rightarrow> string" where
  "resolve processCwd path =
    (let viaArg = (if path = [] then [] else path @ ''/'');
         argAbsolute = (path \<noteq> [] \<and> hd path = CHR ''/'');
         resolvedPath = (if argAbsolute \<or> processCwd = [] then viaArg
                         else processCwd @ ''/'' @ viaArg);
         resolvedAbsolute = (argAbsolute \<or> (processCwd \<noteq> [] \<and> hd processCwd = CHR ''/''));
         p = normalizeString resolvedPath (\<not> resolvedAbsolute)
     in if resolvedAbsolute then ''/'' @ p else if p \<noteq> [] then p else ''.'')"

text \<open>
  \<open>s.indexOf(pat)\<close>: the first index at which \<open>pat\<close> occurs in \<open>s\<close>, or \<open>-1\<close>.
\<close>

fun indexOfFrom :: "nat \<Rightarrow> string \<Rightarrow> string \<Rightarrow> int" where
  "indexOfFrom i [] pat = (if pat = [] then int i else - 1)"
| "indexOfFrom i (c # cs) pat =
    (if prefix pat (c # cs) then int i else indexOfFrom (Suc i) cs pat)"

definition indexOf :: "string \<Rightarrow> string \<Rightarrow> int" where
  "indexOf s pat = indexOfFrom 0 s pat"

section \<open>walkForTsConfig\<close>

text \<open>
  The upward walk (lines 74 to 96). The recursion ends only when a configuration file is
  found or \<open>path.join(directory, "../")\<close> gives \<open>directory\<close> back, so the function is
  partial: \<open>None\<close> is a walk that never returns (the recursion goes on until the
  call stack is exhausted), \<open>Some None\<close> is the result \<open>undefined\<close>,
  \<open>Some (Some p)\<close> the path found.
\<close>

partial_function (option) walkForTsConfig :: "string \<Rightarrow> (string \<Rightarrow> bool) \<Rightarrow> string option option" where
  "walkForTsConfig directory existsSync =
    (if existsSync (path_join [directory, ''./tsconfig.json'']) then
       Some (Some (path_join [directory, ''./tsconfig.json'']))
     else if existsSync (path_join [directory, ''./jsconfig.json'']) then
       Some (Some (path_join [directory, ''./jsconfig.json'']))
     else if directory = path_join [directory, ''../''] then Some None
     else walkForTsConfig (path_join [directory, ''../'']) existsSync)"

section \<open>parseTsConfig\<close>

text \<open>
  The two library calls between the text of a file and its document:
  \<open>stripBom\<close> and \<open>JSON5.parse\<close>, which throws on a malformed text (\<open>None\<close>).
\<close>

record json5 =
  stripBom :: "string \<Rightarrow> string"
  parse :: "string \<Rightarrow> jsval option"

text \<open>
  Lines 108 to 110. \<open>readFileSync\<close> is the parameter of the source; it gives \<open>None\<close>
  when the read throws.
\<close>

definition readConfig :: "json5 \<Rightarrow> (string \<Rightarrow> string option) \<Rightarrow> string \<Rightarrow> error + jsval" where
  "readConfig J readFileSync configFilePath =
    (case readFileSync configFilePath of
       None \<Rightarrow> Inl IOError
     | Some configString \<Rightarrow>
        (case parse J (stripBom J configString) of
           None \<Rightarrow> Inl SyntaxError
         | Some cfg \<Rightarrow> Inr cfg))"

text \<open>Lines 114 to 119, for a reference that is a string.\<close>

definition withJsonSuffix :: "string \<Rightarrow> string" where
  "withJsonSuffix extendedConfig =
    (if indexOf extendedConfig ''.json'' = - 1 then extendedConfig @ ''.json''
     else extendedConfig)"

text \<open>Lines 120 to 132: the file the reference stands for.\<close>

definition extendedConfigPathOf :: "(string \<Rightarrow> bool) \<Rightarrow> string \<Rightarrow> string \<Rightarrow> string" where
  "extendedConfigPathOf existsSync configFilePath extendedConfig =
    (let currentDir = dirname configFilePath;
         extendedConfigPath = path_join [currentDir, extendedConfig]
     in if indexOf extendedConfig ''/'' \<noteq> - 1 \<and> indexOf extendedConfig ''.'' \<noteq> - 1 \<and>
           \<not> existsSync extendedConfigPath
        then path_join [currentDir, ''node_modules'', extendedConfig]
        else extendedConfigPath)"

text \<open>\<open>parseTsConfig(...) || {}\<close> on line 135.\<close>

definition orEmpty :: "jsval option \<Rightarrow> jsval" where
  "orEmpty b = (case b of None \<Rightarrow> JObj Map.empty
                | Some v \<Rightarrow> if truthy (Some v) then v else JObj Map.empty)"

text \<open>
  Lines 139 to 145: the \<open>baseUrl\<close> of the base, made relative to the extending file.
  \<open>path.join\<close> throws a \<open>TypeError\<close> on an argument that is not a string.
\<close>

definition rebaseBaseUrl :: "string \<Rightarrow> jsval \<Rightarrow> error + jsval" where
  "rebaseBaseUrl extendedConfig base =
    (case getProp (Some base) ''compilerOptions'' of
       Inl e \<Rightarrow> Inl e
     | Inr co \<Rightarrow>
        if \<not> truthy co then Inr base
        else
          (case getProp co ''baseUrl'' of
             Inl e \<Rightarrow> Inl e
           | Inr b \<Rightarrow>
              if \<not> truthy b then Inr base
              else
                (case b of
                   Some (JStr baseUrl) \<Rightarrow>
                     (case assignCompilerOption (Some base) ''baseUrl''
                             (JStr (path_join [dirname extendedConfig, baseUrl])) of
                        Inl e \<Rightarrow> Inl e
                      | Inr None \<Rightarrow> Inl TypeError
                      | Inr (Some base') \<Rightarrow> Inr base')
                 | _ \<Rightarrow> Inl TypeError)))"

text \<open>
  The properties an object spread \<open>{...v}\<close> copies: none of \<open>undefined\<close>, \<open>null\<close>,
  a number or a boolean, the properties of an object, the indexed characters of a string,
  and the indexed elements of an array with its named properties.
\<close>

fun showNat :: "nat \<Rightarrow> string" where
  "showNat n = (if n < 10 then [char_of (48 + n)]
                else showNat (n div 10) @ [char_of (48 + n mod 10)])"

fun ownProps :: "jsval option \<Rightarrow> (string \<Rightarrow> jsval option)" where
  "ownProps (Some (JObj m)) = m"
| "ownProps (Some (JStr s)) =
     map_of (zip (map showNat [0..<length s]) (map (\<lambda>c. JStr [c]) s))"
| "ownProps (Some (JArrP xs ps)) = map_of (zip (map showNat [0..<length xs]) xs) ++ ps"
| "ownProps v = Map.empty"

text \<open>Lines 147 to 154: the object literal that is returned.\<close>

definition mergeConfigs :: "jsval \<Rightarrow> jsval \<Rightarrow> error + jsval" where
  "mergeConfigs base cfg =
    (case getProp (Some base) ''compilerOptions'' of
       Inl e \<Rightarrow> Inl e
     | Inr baseOptions \<Rightarrow>
        (case getProp (Some cfg) ''compilerOptions'' of
           Inl e \<Rightarrow> Inl e
         | Inr cfgOptions \<Rightarrow>
            Inr (JObj ((ownProps (Some base) ++ ownProps (Some cfg))
                        (''compilerOptions'' \<mapsto> JObj (ownProps baseOptions ++ ownProps cfgOptions))))))"

text \<open>Lines 134 to 154, once the base has been parsed.\<close>

definition extendConfig :: "string \<Rightarrow> jsval option \<Rightarrow> jsval \<Rightarrow> error + jsval option" where
  "extendConfig extendedConfig parsedBase cfg =
    (case rebaseBaseUrl extendedConfig (orEmpty parsedBase) of
       Inl e \<Rightarrow> Inl e
     | Inr base \<Rightarrow>
        (case mergeConfigs base cfg of
           Inl e \<Rightarrow> Inl e
         | Inr merged \<Rightarrow> Inr (Some merged)))"

text \<open>
  The function (lines 98 to 157). There is no guard against a cycle of \<open>extends\<close>, so
  the function is partial: \<open>None\<close> is a call that never returns, \<open>Some (Inl e)\<close> a
  thrown error, \<open>Some (Inr None)\<close> the result \<open>undefined\<close>. A reference that is truthy
  and not a string makes \<open>path.join\<close> throw on line 121.
\<close>

partial_function (option) parseTsConfig ::
  "json5 \<Rightarrow> string \<Rightarrow> (string \<Rightarrow> bool) \<Rightarrow> (string \<Rightarrow> string option) \<Rightarrow> (error + jsval option) option"
where
  "parseTsConfig J configFilePath existsSync readFileSync =
    (if \<not> existsSync configFilePath then Some (Inr None)
     else
       (case readConfig J readFileSync configFilePath of
          Inl e \<Rightarrow> Some (Inl e)
        | Inr cfg \<Rightarrow>
           (case getProp (Some cfg) ''extends'' of
              Inl e \<Rightarrow> Some (Inl e)
            | Inr extendedConfig \<Rightarrow>
               if truthy extendedConfig then
                 (case extendedConfig of
                    Some (JStr ref) \<Rightarrow>
                      Option.bind
                        (parseTsConfig J
                           (extendedConfigPathOf existsSync configFilePath (withJsonSuffix ref))
                           existsSync readFileSync)
                        (\<lambda>r. case r of
                               Inl e \<Rightarrow> Some (Inl e)
                             | Inr parsedBase \<Rightarrow>
                                 Some (extendConfig (withJsonSuffix ref) parsedBase cfg))
                  | _ \<Rightarrow> Some (Inl TypeError))
               else Some (Inr (Some cfg)))))"

section \<open>loadSync\<close>

text \<open>
  The file system as the loader uses it: \<open>fs.statSync(p).isFile()\<close> (\<open>None\<close> when
  \<open>statSync\<close> throws), \<open>fs.existsSync\<close>, \<open>fs.readFileSync(_, "utf8")\<close> and
  \<open>fs.writeFileSync\<close>.
\<close>

record filesystem =
  statIsFile :: "string \<Rightarrow> bool option"
  fs_existsSync :: "string \<Rightarrow> bool"
  fs_readFileSync :: "string \<Rightarrow> string option"
  fs_writeFileSync :: "string \<Rightarrow> jsval \<Rightarrow> error option"

record TsConfigLoaderResult =
  tsConfigPath :: "string option"
  baseUrl :: "jsval option"
  paths :: "jsval option"

text \<open>Lines 65 to 72. A path is truthy when it is not the empty string.\<close>

definition resolveConfigPath :: "string \<Rightarrow> filesystem \<Rightarrow> string \<Rightarrow> (error + string option) option" where
  "resolveConfigPath processCwd F cwd =
    (case statIsFile F cwd of
       None \<Rightarrow> Some (Inl IOError)
     | Some True \<Rightarrow> Some (Inr (Some (resolve processCwd cwd)))
     | Some False \<Rightarrow>
        (case walkForTsConfig cwd (fs_existsSync F) of
           None \<Rightarrow> None
         | Some None \<Rightarrow> Some (Inr None)
         | Some (Some configAbsolutePath) \<Rightarrow>
             if configAbsolutePath \<noteq> [] then Some (Inr (Some (resolve processCwd configAbsolutePath)))
             else Some (Inr None)))"

text \<open>
  \<open>config && config.compilerOptions && config.compilerOptions[k]\<close> (lines 60 and 61):
  \<open>a && b\<close> is \<open>a\<close> when \<open>a\<close> is falsy.
\<close>

definition guardedOption :: "jsval option \<Rightarrow> string \<Rightarrow> error + jsval option" where
  "guardedOption cfg k =
    (if \<not> truthy cfg then Inr cfg
     else
       (case getProp cfg ''compilerOptions'' of
          Inl e \<Rightarrow> Inl e
        | Inr co \<Rightarrow> if \<not> truthy co then Inr co else getProp co k))"

text \<open>
  Lines 42 to 63. Next to the result, the model returns the call of \<open>fs.writeFileSync\<close>
  that \<open>writeConfigurationDefaults\<close> made, if any.
\<close>

definition loadSync ::
  "printers \<Rightarrow> json5 \<Rightarrow> string \<Rightarrow> filesystem \<Rightarrow> string
     \<Rightarrow> (error + TsConfigLoaderResult \<times> (string \<times> jsval) option) option"
where
  "loadSync P J processCwd F cwd =
    (case resolveConfigPath processCwd F cwd of
       None \<Rightarrow> None
     | Some (Inl e) \<Rightarrow> Some (Inl e)
     | Some (Inr configPath) \<Rightarrow>
        (case configPath of
           None \<Rightarrow> Some (Inr (\<lparr>tsConfigPath = None, baseUrl = None, paths = None\<rparr>, None))
         | Some cp \<Rightarrow>
            if cp = [] then
              Some (Inr (\<lparr>tsConfigPath = None, baseUrl = None, paths = None\<rparr>, None))
            else
              (case parseTsConfig J cp (fs_existsSync F) (fs_readFileSync F) of
                 None \<Rightarrow> None
               | Some (Inl e) \<Rightarrow> Some (Inl e)
               | Some (Inr cfg) \<Rightarrow>
                  (case writeConfigurationDefaults P (fs_writeFileSync F) cfg cp of
                     Inl e \<Rightarrow> Some (Inl e)
                   | Inr r \<Rightarrow>
                      (case guardedOption (config_after r) ''baseUrl'' of
                         Inl e \<Rightarrow> Some (Inl e)
                       | Inr b \<Rightarrow>
                          (case guardedOption (config_after r) ''paths'' of
                             Inl e \<Rightarrow> Some (Inl e)
                           | Inr ps \<Rightarrow>
                              Some (Inr (\<lparr>tsConfigPath = Some cp, baseUrl = b, paths = ps\<rparr>,
                                         written r))))))))"

text \<open>Lines 35 to 40.\<close>

definition tsConfigLoader ::
  "printers \<Rightarrow> json5 \<Rightarrow> string \<Rightarrow> filesystem \<Rightarrow> string
     \<Rightarrow> (error + TsConfigLoaderResult \<times> (string \<times> jsval) option) option"
where
  "tsConfigLoader P J processCwd F cwd = loadSync P J processCwd F cwd"

section \<open>Vocabulary of the statements and example inputs\<close>

text \<open>
  Printers that add no colour: \<open>blue\<close> gives its text back and \<open>bold\<close> the text of
  the value.
\<close>

fun plainText :: "jsval \<Rightarrow> string" where
  "plainText (JStr s) = s"
| "plainText (JBool b) = (if b then ''true'' else ''false'')"
| "plainText v = []"

definition plainPrinters :: printers where
  "plainPrinters = \<lparr>blue = id, bold = plainText\<rparr>"

text \<open>
  A configuration satisfies an entry of the table when its \<open>compilerOptions\<close> has the
  suggested key, or has the required key with the required value.
\<close>

fun satisfiesCheck :: "(string \<Rightarrow> jsval option) \<Rightarrow> string \<times> check \<Rightarrow> bool" where
  "satisfiesCheck co (k, Suggested s) = (co k \<noteq> None)"
| "satisfiesCheck co (k, Required v r) = (co k = Some v)"

text \<open>A configuration that satisfies every entry of the table and has \<open>include\<close>.\<close>

definition completeOptions :: "string \<Rightarrow> jsval option" where
  "completeOptions =
     [''target'' \<mapsto> JStr ''ES2022'', ''lib'' \<mapsto> JArr [JStr ''ES2022''],
      ''allowJs'' \<mapsto> JBool False, ''strict'' \<mapsto> JBool False, ''baseUrl'' \<mapsto> JStr ''./app'',
      ''forceConsistentCasingInFileNames'' \<mapsto> JBool True,
      ''esModuleInterop'' \<mapsto> JBool True, ''isolatedModules'' \<mapsto> JBool True,
      ''jsx'' \<mapsto> JStr ''react-jsx'', ''moduleResolution'' \<mapsto> JStr ''node'',
      ''resolveJsonModule'' \<mapsto> JBool True, ''noEmit'' \<mapsto> JBool True]"

definition completeConfig :: "string \<Rightarrow> jsval option" where
  "completeConfig = [''compilerOptions'' \<mapsto> JObj completeOptions, ''include'' \<mapsto> JArr [JStr ''app'']]"

text \<open>
  A configuration with an empty \<open>compilerOptions\<close>, the configuration
  \<open>writeConfigurationDefaults\<close> makes of it, and the notes of the two kinds.
\<close>

definition bareConfig :: "string \<Rightarrow> jsval option" where
  "bareConfig = [''compilerOptions'' \<mapsto> JObj Map.empty]"

definition requiredOnly :: "string \<Rightarrow> jsval option" where
  "requiredOnly =
     [''esModuleInterop'' \<mapsto> JBool True, ''isolatedModules'' \<mapsto> JBool True,
      ''jsx'' \<mapsto> JStr ''react-jsx'', ''moduleResolution'' \<mapsto> JStr ''node'',
      ''resolveJsonModule'' \<mapsto> JBool True, ''noEmit'' \<mapsto> JBool True]"

definition reconciledBare :: "string \<Rightarrow> jsval option" where
  "reconciledBare = [''compilerOptions'' \<mapsto> JObj requiredOnly, ''include'' \<mapsto> includeDefault]"

definition sixSuggestions :: "printers \<Rightarrow> string list" where
  "sixSuggestions P =
     [suggestedNote P ''target'' (JStr ''ES2019''),
      suggestedNote P ''lib'' (JArr [JStr ''DOM'', JStr ''DOM.Iterable'', JStr ''ES2019'']),
      suggestedNote P ''allowJs'' (JBool True),
      suggestedNote P ''strict'' (JBool True),
      suggestedNote P ''baseUrl'' (JStr ''.''),
      suggestedNote P ''forceConsistentCasingInFileNames'' (JBool True)]"

definition sixRequirements :: "printers \<Rightarrow> string list" where
  "sixRequirements P =
     [requiredNote P ''esModuleInterop'' (JBool True) ''requirement for esbuild'',
      requiredNote P ''isolatedModules'' (JBool True) ''requirement for esbuild'',
      requiredNote P ''jsx'' (JStr ''react-jsx'') ''requirement for esbuild'',
      requiredNote P ''moduleResolution'' (JStr ''node'') ''to match esbuild'',
      requiredNote P ''resolveJsonModule'' (JBool True) ''to match esbuild'',
      requiredNote P ''noEmit'' (JBool True)
        ''Remix takes care of building everything in `remix build`.'']"

text \<open>
  A write that succeeds, a file system that holds nothing but directories, and a parser
  that accepts no text.
\<close>

definition writeOk :: "string \<Rightarrow> jsval \<Rightarrow> error option" where
  "writeOk p c = None"

definition noJson5 :: json5 where
  "noJson5 = \<lparr>stripBom = id, parse = (\<lambda>s. None)\<rparr>"

definition emptyRoot :: filesystem where
  "emptyRoot = \<lparr>statIsFile = (\<lambda>p. Some False), fs_existsSync = (\<lambda>p. False),
                 fs_readFileSync = (\<lambda>p. None), fs_writeFileSync = (\<lambda>p c. None)\<rparr>"

text \<open>
  The wording of the specification for line 116, to compare \<open>withJsonSuffix\<close> with:
  a reference has a file extension when its last segment has a dot after its first
  character (and is not \<open>..\<close>).
\<close>

definition spec_hasFileExtension :: "string \<Rightarrow> bool" where
  "spec_hasFileExtension ref =
    (let name = last (splitSlash ref) in name \<noteq> ''..'' \<and> CHR ''.'' \<in> set (tl name))"

text \<open>
  The vocabulary of the walk: the parent of a directory as line 88 computes it, the two
  files looked for in a directory in the order of lines 78 to 86, and the directories the
  walk visits in \<open>n\<close> steps.
\<close>

definition parentDirectory :: "string \<Rightarrow> string" where
  "parentDirectory directory = path_join [directory, ''../'']"

definition candidates :: "string \<Rightarrow> string list" where
  "candidates directory =
     [path_join [directory, ''./tsconfig.json''], path_join [directory, ''./jsconfig.json'']]"

fun upward :: "nat \<Rightarrow> string \<Rightarrow> string list" where
  "upward 0 directory = [directory]"
| "upward (Suc n) directory = directory # upward n (parentDirectory directory)"

text \<open>
  An existence test that finds nothing, one for a project under \<open>/app\<close>, and the
  relative path \<open>../\<close> repeated \<open>n\<close> times.
\<close>

definition noFile :: "string \<Rightarrow> bool" where
  "noFile p = False"

fun ups :: "nat \<Rightarrow> string" where
  "ups 0 = []"
| "ups (Suc n) = ''../'' @ ups n"

definition appFiles :: "string \<Rightarrow> bool" where
  "appFiles p \<longleftrightarrow> p = ''/app/tsconfig.json'' \<or> p = ''/app/jsconfig.json'' \<or> p = ''/jsconfig.json''"

text \<open>
  Segments that normalisation keeps as they are, and the absolute directory they spell.
\<close>

definition plainSegment :: "string \<Rightarrow> bool" where
  "plainSegment seg \<longleftrightarrow> seg \<noteq> [] \<and> seg \<noteq> ''.'' \<and> seg \<noteq> ''..'' \<and> CHR ''/'' \<notin> set seg"

definition dirOf :: "string list \<Rightarrow> string" where
  "dirOf segs = (if segs = [] then ''/'' else ''/'' @ joinSlash segs @ ''/'')"

















section \<open>The loop over the table\<close>

text \<open>
  On a configuration whose \<open>compilerOptions\<close> is an object, one entry of the table
  never throws, and does exactly the following.
\<close>

lemma applyCheck_suggested_eq:
  assumes "config st = Some (JObj m)" and "m ''compilerOptions'' = Some (JObj co)"
  shows "applyCheck P st (k, Suggested s) =
           Inr (if m k = None \<and> co k = None
                then st\<lparr>suggestedActions := suggestedActions st @ [suggestedNote P k s]\<rparr>
                else st)"
  using assms by (auto split: option.splits)

lemma applyCheck_required_eq:
  assumes "config st = Some (JObj m)" and "m ''compilerOptions'' = Some (JObj co)"
  shows "applyCheck P st (k, Required v r) =
           Inr (if strictEq (Some v) (co k) then st
                else st\<lparr>config := Some (JObj (m(''compilerOptions'' \<mapsto> JObj (co(k \<mapsto> v))))),
                        requiredActions := requiredActions st @ [requiredNote P k v r]\<rparr>)"
  using assms by (simp add: assignCompilerOption_def)

lemma applyCheck_shape:
  assumes "config st = Some (JObj m)" and "m ''compilerOptions'' = Some (JObj co)"
  obtains co1 sa1 ra1 where
    "applyCheck P st c =
       Inr \<lparr>config = Some (JObj (m(''compilerOptions'' \<mapsto> JObj co1))),
            suggestedActions = suggestedActions st @ sa1,
            requiredActions = requiredActions st @ ra1\<rparr>"
    and "\<And>k'. k' \<noteq> fst c \<Longrightarrow> co1 k' = co k'"
proof -
  have triv: "m(''compilerOptions'' \<mapsto> JObj co) = m"
    using assms(2) by (simp add: fun_upd_idem)
  obtain k chk where c: "c = (k, chk)" by (cases c)
  show thesis
  proof (cases chk)
    case (Suggested s)
    show ?thesis
    proof (cases "m k = None \<and> co k = None")
      case True
      then have "applyCheck P st c =
         Inr \<lparr>config = Some (JObj (m(''compilerOptions'' \<mapsto> JObj co))),
              suggestedActions = suggestedActions st @ [suggestedNote P k s],
              requiredActions = requiredActions st @ []\<rparr>"
        using assms by (simp add: c Suggested applyCheck_suggested_eq[OF assms] triv del: applyCheck.simps)
      then show ?thesis using that by blast
    next
      case False
      then have "applyCheck P st c =
         Inr \<lparr>config = Some (JObj (m(''compilerOptions'' \<mapsto> JObj co))),
              suggestedActions = suggestedActions st @ [],
              requiredActions = requiredActions st @ []\<rparr>"
        using assms by (simp add: c Suggested applyCheck_suggested_eq[OF assms] triv del: applyCheck.simps)
      then show ?thesis using that by blast
    qed
  next
    case (Required v r)
    show ?thesis
    proof (cases "strictEq (Some v) (co k)")
      case True
      then have "applyCheck P st c =
         Inr \<lparr>config = Some (JObj (m(''compilerOptions'' \<mapsto> JObj co))),
              suggestedActions = suggestedActions st @ [],
              requiredActions = requiredActions st @ []\<rparr>"
        using assms by (simp add: c Required applyCheck_required_eq[OF assms] triv del: applyCheck.simps)
      then show ?thesis using that by blast
    next
      case False
      then have "applyCheck P st c =
         Inr \<lparr>config = Some (JObj (m(''compilerOptions'' \<mapsto> JObj (co(k \<mapsto> v))))),
              suggestedActions = suggestedActions st @ [],
              requiredActions = requiredActions st @ [requiredNote P k v r]\<rparr>"
        using assms by (simp add: c Required applyCheck_required_eq[OF assms] del: applyCheck.simps)
      moreover have "\<And>k'. k' \<noteq> fst c \<Longrightarrow> (co(k \<mapsto> v)) k' = co k'"
        by (simp add: c)
      ultimately show ?thesis using that by blast
    qed
  qed
qed

lemma applyChecks_shape:
  assumes "config st = Some (JObj m)" and "m ''compilerOptions'' = Some (JObj co)"
  shows "\<exists>co' sa ra.
     applyChecks P st cs =
       Inr \<lparr>config = Some (JObj (m(''compilerOptions'' \<mapsto> JObj co'))),
            suggestedActions = suggestedActions st @ sa,
            requiredActions = requiredActions st @ ra\<rparr>
     \<and> (\<forall>k. k \<notin> fst ` set cs \<longrightarrow> co' k = co k)"
  using assms
proof (induction cs arbitrary: st m co)
  case Nil
  have "m(''compilerOptions'' \<mapsto> JObj co) = m"
    using Nil(2) by (simp add: fun_upd_idem)
  then have "applyChecks P st [] =
       Inr \<lparr>config = Some (JObj (m(''compilerOptions'' \<mapsto> JObj co))),
            suggestedActions = suggestedActions st @ [],
            requiredActions = requiredActions st @ []\<rparr>"
    using Nil(1) by simp
  then show ?case by blast
next
  case (Cons c cs)
  obtain co1 sa1 ra1 where
    step: "applyCheck P st c =
       Inr \<lparr>config = Some (JObj (m(''compilerOptions'' \<mapsto> JObj co1))),
            suggestedActions = suggestedActions st @ sa1,
            requiredActions = requiredActions st @ ra1\<rparr>"
    and keep: "\<And>k'. k' \<noteq> fst c \<Longrightarrow> co1 k' = co k'"
    using applyCheck_shape[OF Cons.prems, of P c] by blast
  define st1 where "st1 = \<lparr>config = Some (JObj (m(''compilerOptions'' \<mapsto> JObj co1))),
            suggestedActions = suggestedActions st @ sa1,
            requiredActions = requiredActions st @ ra1\<rparr>"
  have c1: "config st1 = Some (JObj (m(''compilerOptions'' \<mapsto> JObj co1)))"
    by (simp add: st1_def)
  have c2: "(m(''compilerOptions'' \<mapsto> JObj co1)) ''compilerOptions'' = Some (JObj co1)"
    by simp
  from Cons.IH[OF c1 c2] obtain co' sa ra where
    rest: "applyChecks P st1 cs =
       Inr \<lparr>config = Some (JObj ((m(''compilerOptions'' \<mapsto> JObj co1))(''compilerOptions'' \<mapsto> JObj co'))),
            suggestedActions = suggestedActions st1 @ sa,
            requiredActions = requiredActions st1 @ ra\<rparr>"
    and keep': "\<forall>k. k \<notin> fst ` set cs \<longrightarrow> co' k = co1 k"
    by blast
  have "applyChecks P st (c # cs) =
       Inr \<lparr>config = Some (JObj (m(''compilerOptions'' \<mapsto> JObj co'))),
            suggestedActions = suggestedActions st @ (sa1 @ sa),
            requiredActions = requiredActions st @ (ra1 @ ra)\<rparr>"
    using step rest by (simp add: st1_def)
  moreover have "\<forall>k. k \<notin> fst ` set (c # cs) \<longrightarrow> co' k = co k"
    using keep keep' by simp
  ultimately show ?case by blast
qed

lemma applyChecks_required:
  assumes "config st = Some (JObj m)" and "m ''compilerOptions'' = Some (JObj co)"
    and "distinct (map fst cs)" and "(k, Required v r) \<in> set cs"
    and "\<And>x. strictEq (Some v) x = (x = Some v)"
  shows "\<exists>co' sa ra.
     applyChecks P st cs =
       Inr \<lparr>config = Some (JObj (m(''compilerOptions'' \<mapsto> JObj co'))),
            suggestedActions = suggestedActions st @ sa,
            requiredActions = requiredActions st @ ra\<rparr>
     \<and> co' k = Some v \<and> (co k \<noteq> Some v \<longrightarrow> requiredNote P k v r \<in> set ra)"
  using assms(1-4)
proof (induction cs arbitrary: st m co)
  case Nil
  then show ?case by simp
next
  case (Cons c cs)
  show ?case
  proof (cases "c = (k, Required v r)")
    case True
    from Cons.prems(3) True have notin: "k \<notin> fst ` set cs" by auto
    define co1 where "co1 = co(k \<mapsto> v)"
    define ra1 where "ra1 = (if co k = Some v then [] else [requiredNote P k v r])"
    define st1 where "st1 = \<lparr>config = Some (JObj (m(''compilerOptions'' \<mapsto> JObj co1))),
            suggestedActions = suggestedActions st,
            requiredActions = requiredActions st @ ra1\<rparr>"
    have triv: "co k = Some v \<Longrightarrow> m(''compilerOptions'' \<mapsto> JObj (co(k \<mapsto> v))) = m"
      using Cons.prems(2) by (simp add: fun_upd_idem)
    have step: "applyCheck P st c = Inr st1"
      using applyCheck_required_eq[OF Cons.prems(1,2), of P k v r] triv Cons.prems(1)
      by (simp add: True assms(5) st1_def co1_def ra1_def del: applyCheck.simps)
    have c1: "config st1 = Some (JObj (m(''compilerOptions'' \<mapsto> JObj co1)))"
      by (simp add: st1_def)
    have c2: "(m(''compilerOptions'' \<mapsto> JObj co1)) ''compilerOptions'' = Some (JObj co1)"
      by simp
    from applyChecks_shape[OF c1 c2, of P cs] obtain co' sa ra where
      rest: "applyChecks P st1 cs =
         Inr \<lparr>config = Some (JObj ((m(''compilerOptions'' \<mapsto> JObj co1))(''compilerOptions'' \<mapsto> JObj co'))),
              suggestedActions = suggestedActions st1 @ sa,
              requiredActions = requiredActions st1 @ ra\<rparr>"
      and keep: "\<forall>k. k \<notin> fst ` set cs \<longrightarrow> co' k = co1 k"
      by blast
    have "applyChecks P st (c # cs) =
         Inr \<lparr>config = Some (JObj (m(''compilerOptions'' \<mapsto> JObj co'))),
              suggestedActions = suggestedActions st @ sa,
              requiredActions = requiredActions st @ (ra1 @ ra)\<rparr>"
      using step rest by (simp add: st1_def)
    moreover have "co' k = Some v" using keep notin by (simp add: co1_def)
    moreover have "co k \<noteq> Some v \<longrightarrow> requiredNote P k v r \<in> set (ra1 @ ra)"
      by (simp add: ra1_def)
    ultimately show ?thesis by blast
  next
    case False
    with Cons.prems(4) have mem: "(k, Required v r) \<in> set cs" by simp
    then have "k \<in> fst ` set cs" by force
    moreover from Cons.prems(3) have "fst c \<notin> fst ` set cs" by simp
    ultimately have ne: "k \<noteq> fst c" by blast
    from Cons.prems(3) have dist: "distinct (map fst cs)" by simp
    obtain co1 sa1 ra1 where
      step: "applyCheck P st c =
         Inr \<lparr>config = Some (JObj (m(''compilerOptions'' \<mapsto> JObj co1))),
              suggestedActions = suggestedActions st @ sa1,
              requiredActions = requiredActions st @ ra1\<rparr>"
      and keep: "\<And>k'. k' \<noteq> fst c \<Longrightarrow> co1 k' = co k'"
      using applyCheck_shape[OF Cons.prems(1,2), of P c] by blast
    define st1 where "st1 = \<lparr>config = Some (JObj (m(''compilerOptions'' \<mapsto> JObj co1))),
            suggestedActions = suggestedActions st @ sa1,
            requiredActions = requiredActions st @ ra1\<rparr>"
    have c1: "config st1 = Some (JObj (m(''compilerOptions'' \<mapsto> JObj co1)))"
      by (simp add: st1_def)
    have c2: "(m(''compilerOptions'' \<mapsto> JObj co1)) ''compilerOptions'' = Some (JObj co1)"
      by simp
    from Cons.IH[OF c1 c2 dist mem] obtain co' sa ra where
      rest: "applyChecks P st1 cs =
         Inr \<lparr>config = Some (JObj ((m(''compilerOptions'' \<mapsto> JObj co1))(''compilerOptions'' \<mapsto> JObj co'))),
              suggestedActions = suggestedActions st1 @ sa,
              requiredActions = requiredActions st1 @ ra\<rparr>"
      and tgt: "co' k = Some v" and noted: "co1 k \<noteq> Some v \<longrightarrow> requiredNote P k v r \<in> set ra"
      by blast
    have "applyChecks P st (c # cs) =
         Inr \<lparr>config = Some (JObj (m(''compilerOptions'' \<mapsto> JObj co'))),
              suggestedActions = suggestedActions st @ (sa1 @ sa),
              requiredActions = requiredActions st @ (ra1 @ ra)\<rparr>"
      using step rest by (simp add: st1_def)
    moreover have "co k \<noteq> Some v \<longrightarrow> requiredNote P k v r \<in> set (ra1 @ ra)"
      using noted keep[OF ne] by simp
    ultimately show ?thesis using tgt by blast
  qed
qed

text \<open>Without \<open>compilerOptions\<close>, a suggested entry throws or does nothing, and a
  required entry throws.\<close>

lemma applyCheck_noOptions_suggested:
  assumes "config st = Some (JObj m)" and "m ''compilerOptions'' = None"
  shows "applyCheck P st (k, Suggested s) = Inl TypeError \<or> applyCheck P st (k, Suggested s) = Inr st"
  using assms by (simp split: bool.splits)

lemma applyCheck_noOptions_required:
  assumes "config st = Some (JObj m)" and "m ''compilerOptions'' = None"
  shows "applyCheck P st (k, Required v r) = Inl TypeError"
  using assms by simp

lemma applyChecks_noOptions:
  assumes "config st = Some (JObj m)" and "m ''compilerOptions'' = None"
    and "(k, Required v r) \<in> set cs"
  shows "applyChecks P st cs = Inl TypeError"
  using assms
proof (induction cs arbitrary: st)
  case Nil
  then show ?case by simp
next
  case (Cons c cs)
  obtain k' chk where c: "c = (k', chk)" by (cases c)
  show ?case
  proof (cases chk)
    case (Suggested s)
    from applyCheck_noOptions_suggested[OF Cons.prems(1,2), of P k' s]
    show ?thesis
    proof
      assume "applyCheck P st (k', Suggested s) = Inl TypeError"
      then show ?thesis by (simp add: c Suggested)
    next
      assume same: "applyCheck P st (k', Suggested s) = Inr st"
      from Cons.prems(3) have "(k, Required v r) \<in> set cs" by (auto simp: c Suggested)
      from Cons.IH[OF Cons.prems(1,2) this] same show ?thesis by (simp add: c Suggested)
    qed
  next
    case (Required v' r')
    from applyCheck_noOptions_required[OF Cons.prems(1,2), of P k' v' r']
    show ?thesis by (simp add: c Required)
  qed
qed

text \<open>The required values of the table are primitives, compared by value.\<close>

lemma table_distinct: "distinct (map fst getDesiredCompilerOptions)"
  by (simp add: getDesiredCompilerOptions_def)

lemma table_required_primitive:
  assumes "(k, Required v r) \<in> set getDesiredCompilerOptions"
  shows "strictEq (Some v) x = (x = Some v)"
  using assms by (auto simp: getDesiredCompilerOptions_def strictEq_def)

lemma applyInclude_eq:
  assumes "config st = Some (JObj m)"
  shows "applyInclude P st =
     Inr (if m ''include'' \<noteq> None then st
          else st\<lparr>config := Some (JObj (m(''include'' \<mapsto> includeDefault))),
                  suggestedActions := suggestedActions st @ [includeNote P]\<rparr>)"
  using assms by (simp add: applyInclude_def)

section \<open>Required options\<close>

text \<open>
  The last step: nothing is written when no note was recorded; otherwise the
  configuration goes to \<open>fs.writeFileSync\<close>, and the function returns unless the write
  throws.
\<close>

lemma finish_eq:
  assumes "config st = Some c"
  shows "finish W configPath st =
    (if suggestedActions st = [] \<and> requiredActions st = [] then
       Inr \<lparr>config_after = Some c, suggested_notes = suggestedActions st,
            required_notes = requiredActions st, written = None\<rparr>
     else
       (case W configPath c of
          Some e \<Rightarrow> Inl e
        | None \<Rightarrow>
           Inr \<lparr>config_after = Some c, suggested_notes = suggestedActions st,
                required_notes = requiredActions st, written = Some (configPath, c)\<rparr>))"
  using assms by (auto simp: finish_def split: option.splits)

lemma finish_returns:
  assumes "finish W configPath st = Inr R"
  shows "config_after R = config st \<and> suggested_notes R = suggestedActions st \<and>
         required_notes R = requiredActions st"
  using assms by (auto simp: finish_def split: if_splits option.splits)

text \<open>
  C3, as the code has it. For a configuration whose \<open>compilerOptions\<close> is an object
  and for every required entry of the table: the configuration the function ends with
  has the required value under the key; when the value differed before (in value or in
  type, absent included), the note \<open>key was set to value (reason)\<close>, with the reason of
  the table, is among the mandatory changes, and the configuration is given to
  \<open>fs.writeFileSync\<close>. The function returns this configuration and the notes, unless
  that write throws.
\<close>

theorem required_option_enforced:
  assumes "m ''compilerOptions'' = Some (JObj co)"
    and "(k, Required v r) \<in> set getDesiredCompilerOptions"
  shows "\<exists>m' co' sa ra.
     m' ''compilerOptions'' = Some (JObj co') \<and>
     co' k = Some v \<and>
     (co k \<noteq> Some v \<longrightarrow>
        blue P k @ '' was set to '' @ bold P v @ '' ('' @ r @ '')'' \<in> set ra) \<and>
     writeConfigurationDefaults P W (Some (JObj m)) configPath =
       (if sa = [] \<and> ra = [] then
          Inr \<lparr>config_after = Some (JObj m'), suggested_notes = sa, required_notes = ra,
               written = None\<rparr>
        else
          (case W configPath (JObj m') of
             Some e \<Rightarrow> Inl e
           | None \<Rightarrow>
              Inr \<lparr>config_after = Some (JObj m'), suggested_notes = sa, required_notes = ra,
                   written = Some (configPath, JObj m')\<rparr>))"
proof -
  define st0 where "st0 = \<lparr>config = Some (JObj m), suggestedActions = [], requiredActions = []\<rparr>"
  have c0: "config st0 = Some (JObj m)" by (simp add: st0_def)
  from applyChecks_required[OF c0 assms(1) table_distinct assms(2)
      table_required_primitive[OF assms(2)], of P]
  obtain co' sa ra where
    loop: "applyChecks P st0 getDesiredCompilerOptions =
       Inr \<lparr>config = Some (JObj (m(''compilerOptions'' \<mapsto> JObj co'))),
            suggestedActions = suggestedActions st0 @ sa,
            requiredActions = requiredActions st0 @ ra\<rparr>"
    and tgt: "co' k = Some v"
    and noted: "co k \<noteq> Some v \<longrightarrow> requiredNote P k v r \<in> set ra"
    by blast
  define st1 where "st1 = \<lparr>config = Some (JObj (m(''compilerOptions'' \<mapsto> JObj co'))),
            suggestedActions = sa, requiredActions = ra\<rparr>"
  have loop': "applyChecks P st0 getDesiredCompilerOptions = Inr st1"
    using loop by (simp add: st0_def st1_def)
  have c1: "config st1 = Some (JObj (m(''compilerOptions'' \<mapsto> JObj co')))"
    by (simp add: st1_def)
  define m' where "m' = (if (m(''compilerOptions'' \<mapsto> JObj co')) ''include'' \<noteq> None
                         then m(''compilerOptions'' \<mapsto> JObj co')
                         else (m(''compilerOptions'' \<mapsto> JObj co'))(''include'' \<mapsto> includeDefault))"
  have "\<exists>st2. applyInclude P st1 = Inr st2 \<and> config st2 = Some (JObj m') \<and>
          requiredActions st2 = ra"
    using applyInclude_eq[OF c1, of P] c1 by (simp add: m'_def st1_def)
  then obtain st2 where incl: "applyInclude P st1 = Inr st2"
    and c2: "config st2 = Some (JObj m')" and r2: "requiredActions st2 = ra"
    by blast
  have mco: "m' ''compilerOptions'' = Some (JObj co')" by (simp add: m'_def)
  have run: "writeConfigurationDefaults P W (Some (JObj m)) configPath = finish W configPath st2"
    using loop' incl by (simp add: writeConfigurationDefaults_def st0_def)
  have fin: "writeConfigurationDefaults P W (Some (JObj m)) configPath =
       (if suggestedActions st2 = [] \<and> ra = [] then
          Inr \<lparr>config_after = Some (JObj m'), suggested_notes = suggestedActions st2,
               required_notes = ra, written = None\<rparr>
        else
          (case W configPath (JObj m') of
             Some e \<Rightarrow> Inl e
           | None \<Rightarrow>
              Inr \<lparr>config_after = Some (JObj m'), suggested_notes = suggestedActions st2,
                   required_notes = ra, written = Some (configPath, JObj m')\<rparr>))"
    using finish_eq[OF c2, of W configPath] r2 by (simp only: run)
  have pinned: "co k \<noteq> Some v \<longrightarrow>
        blue P k @ '' was set to '' @ bold P v @ '' ('' @ r @ '')'' \<in> set ra"
    using noted by (simp add: requiredNote_def)
  show ?thesis using mco tgt pinned fin by blast
qed

text \<open>
  \<open>esModuleInterop: false\<close> is forced to \<open>true\<close>, with the reason in the note, and
  the file is written.
\<close>

theorem required_option_enforced_witness:
  "(''esModuleInterop'', Required (JBool True) ''requirement for esbuild'')
      \<in> set getDesiredCompilerOptions \<and>
   (\<exists>m' co' sa ra.
     m' ''compilerOptions'' = Some (JObj co') \<and>
     co' ''esModuleInterop'' = Some (JBool True) \<and>
     ''esModuleInterop was set to true (requirement for esbuild)'' \<in> set ra \<and>
     writeConfigurationDefaults plainPrinters writeOk
        (Some (JObj [''compilerOptions'' \<mapsto> JObj [''esModuleInterop'' \<mapsto> JBool False]]))
        ''/app/tsconfig.json'' =
       Inr \<lparr>config_after = Some (JObj m'), suggested_notes = sa, required_notes = ra,
            written = Some (''/app/tsconfig.json'', JObj m')\<rparr>)"
proof -
  have mem: "(''esModuleInterop'', Required (JBool True) ''requirement for esbuild'')
      \<in> set getDesiredCompilerOptions"
    by (simp add: getDesiredCompilerOptions_def)
  from required_option_enforced[of
        "[''compilerOptions'' \<mapsto> JObj [''esModuleInterop'' \<mapsto> JBool False]]"
        "[''esModuleInterop'' \<mapsto> JBool False]" "''esModuleInterop''" "JBool True"
        "''requirement for esbuild''" plainPrinters writeOk "''/app/tsconfig.json''"] mem
  obtain m' co' sa ra where
    a: "m' ''compilerOptions'' = Some (JObj co')"
    and b: "co' ''esModuleInterop'' = Some (JBool True)"
    and c: "blue plainPrinters ''esModuleInterop'' @ '' was set to '' @
            bold plainPrinters (JBool True) @ '' ('' @ ''requirement for esbuild'' @ '')'' \<in> set ra"
    and d: "writeConfigurationDefaults plainPrinters writeOk
        (Some (JObj [''compilerOptions'' \<mapsto> JObj [''esModuleInterop'' \<mapsto> JBool False]]))
        ''/app/tsconfig.json'' =
       (if sa = [] \<and> ra = [] then
          Inr \<lparr>config_after = Some (JObj m'), suggested_notes = sa, required_notes = ra,
               written = None\<rparr>
        else
          (case writeOk ''/app/tsconfig.json'' (JObj m') of
             Some e \<Rightarrow> Inl e
           | None \<Rightarrow>
              Inr \<lparr>config_after = Some (JObj m'), suggested_notes = sa, required_notes = ra,
                   written = Some (''/app/tsconfig.json'', JObj m')\<rparr>))"
    by auto
  from c have c': "''esModuleInterop was set to true (requirement for esbuild)'' \<in> set ra"
    by (simp add: plainPrinters_def)
  then have "ra \<noteq> []" by auto
  with d have d': "writeConfigurationDefaults plainPrinters writeOk
        (Some (JObj [''compilerOptions'' \<mapsto> JObj [''esModuleInterop'' \<mapsto> JBool False]]))
        ''/app/tsconfig.json'' =
       Inr \<lparr>config_after = Some (JObj m'), suggested_notes = sa, required_notes = ra,
            written = Some (''/app/tsconfig.json'', JObj m')\<rparr>"
    by (simp add: writeOk_def)
  show ?thesis using mem a b c' d' by blast
qed

text \<open>
  C3 as stated fails on a configuration whose \<open>compilerOptions\<close> is not an object: on
  \<open>{compilerOptions: "x"}\<close> the read of \<open>esModuleInterop\<close> gives \<open>undefined\<close>,
  which differs from \<open>true\<close>, and the assignment on line 227 throws instead of
  overwriting.
\<close>

theorem string_compilerOptions_throws:
  "getProp (Some (JStr ''x'')) ''esModuleInterop'' = Inr None \<and>
   writeConfigurationDefaults plainPrinters writeOk
      (Some (JObj [''compilerOptions'' \<mapsto> JStr ''x''])) ''/app/tsconfig.json'' = Inl TypeError"
  by (simp add: writeConfigurationDefaults_def getDesiredCompilerOptions_def
      assignCompilerOption_def strictEq_def)

section \<open>A configuration that already satisfies the table\<close>

lemma applyChecks_satisfied:
  assumes "config st = Some (JObj m)" and "m ''compilerOptions'' = Some (JObj co)"
    and "\<forall>c \<in> set cs. satisfiesCheck co c"
    and "\<And>k v r x. (k, Required v r) \<in> set cs \<Longrightarrow> strictEq (Some v) x = (x = Some v)"
  shows "applyChecks P st cs = Inr st"
  using assms(3,4)
proof (induction cs)
  case Nil
  then show ?case by simp
next
  case (Cons c cs)
  obtain k chk where c: "c = (k, chk)" by (cases c)
  have "applyCheck P st c = Inr st"
  proof (cases chk)
    case (Suggested s)
    with Cons.prems(1) c have "co k \<noteq> None" by simp
    then show ?thesis
      using applyCheck_suggested_eq[OF assms(1,2), of P k s]
      by (simp add: c Suggested del: applyCheck.simps)
  next
    case (Required v r)
    with Cons.prems(1) c have "co k = Some v" by simp
    moreover have "strictEq (Some v) (co k) = (co k = Some v)"
      using Cons.prems(2)[of k v r] by (simp add: c Required)
    ultimately show ?thesis
      using applyCheck_required_eq[OF assms(1,2), of P k v r]
      by (simp add: c Required del: applyCheck.simps)
  qed
  moreover have "applyChecks P st cs = Inr st"
  proof (rule Cons.IH)
    show "\<forall>c\<in>set cs. satisfiesCheck co c" using Cons.prems(1) by simp
    show "strictEq (Some v) x = (x = Some v)" if "(k, Required v r) \<in> set cs" for k v r x
      using Cons.prems(2)[of k v r x] that by simp
  qed
  ultimately show ?case by simp
qed

text \<open>
  C6. A configuration that has every suggested key in \<open>compilerOptions\<close>, every
  required key with its required value, and an \<open>include\<close> key, is left as it is:
  no note is recorded and \<open>fs.writeFileSync\<close> is not called.
\<close>

theorem satisfied_config_untouched:
  assumes "m ''compilerOptions'' = Some (JObj co)"
    and "\<forall>c \<in> set getDesiredCompilerOptions. satisfiesCheck co c"
    and "m ''include'' \<noteq> None"
  shows "writeConfigurationDefaults P W (Some (JObj m)) configPath =
           Inr \<lparr>config_after = Some (JObj m), suggested_notes = [], required_notes = [],
                written = None\<rparr>"
proof -
  define st0 where "st0 = \<lparr>config = Some (JObj m), suggestedActions = [], requiredActions = []\<rparr>"
  have c0: "config st0 = Some (JObj m)" by (simp add: st0_def)
  have loop: "applyChecks P st0 getDesiredCompilerOptions = Inr st0"
    using applyChecks_satisfied[OF c0 assms(1,2)] table_required_primitive by blast
  have incl: "applyInclude P st0 = Inr st0"
    using applyInclude_eq[OF c0, of P] assms(3) by simp
  show ?thesis
    using loop incl by (simp add: writeConfigurationDefaults_def finish_def st0_def)
qed

theorem satisfied_config_untouched_witness:
  "completeConfig ''compilerOptions'' = Some (JObj completeOptions) \<and>
   list_all (satisfiesCheck completeOptions) getDesiredCompilerOptions \<and>
   completeConfig ''include'' \<noteq> None \<and>
   writeConfigurationDefaults plainPrinters writeOk (Some (JObj completeConfig)) ''/app/tsconfig.json'' =
     Inr \<lparr>config_after = Some (JObj completeConfig), suggested_notes = [], required_notes = [],
          written = None\<rparr>"
proof -
  have a: "completeConfig ''compilerOptions'' = Some (JObj completeOptions)"
    by (simp add: completeConfig_def)
  have b: "list_all (satisfiesCheck completeOptions) getDesiredCompilerOptions"
    by (simp add: getDesiredCompilerOptions_def completeOptions_def)
  have c: "completeConfig ''include'' \<noteq> None"
    by (simp add: completeConfig_def)
  from b have b': "\<forall>c \<in> set getDesiredCompilerOptions. satisfiesCheck completeOptions c"
    by (simp add: list_all_iff)
  show ?thesis
    using a b c satisfied_config_untouched[OF a b' c, of plainPrinters writeOk "''/app/tsconfig.json''"]
    by simp
qed

section \<open>A configuration without compilerOptions\<close>

text \<open>
  C10. On a configuration object that has no \<open>compilerOptions\<close> property,
  \<open>writeConfigurationDefaults\<close> applies no default and throws a \<open>TypeError\<close>: the
  first required entry reads \<open>config.compilerOptions[optionKey]\<close> unguarded.
\<close>

theorem missing_compilerOptions_throws:
  assumes "m ''compilerOptions'' = None"
  shows "writeConfigurationDefaults P W (Some (JObj m)) configPath = Inl TypeError"
proof -
  have "(''esModuleInterop'', Required (JBool True) ''requirement for esbuild'') \<in> set getDesiredCompilerOptions"
    by (simp add: getDesiredCompilerOptions_def)
  from applyChecks_noOptions[where st="\<lparr>config = Some (JObj m), suggestedActions = [], requiredActions = []\<rparr>" and m=m and P=P, OF _ assms this]
  show ?thesis by (simp add: writeConfigurationDefaults_def)
qed

theorem missing_compilerOptions_throws_witness:
  "Map.empty ''compilerOptions'' = (None :: jsval option) \<and>
   writeConfigurationDefaults plainPrinters writeOk (Some (JObj Map.empty)) ''/app/tsconfig.json'' = Inl TypeError"
  using missing_compilerOptions_throws[of Map.empty plainPrinters writeOk "''/app/tsconfig.json''"]
  by simp

section \<open>Suggested options\<close>

text \<open>The function on a configuration with an empty \<open>compilerOptions\<close>, and on its own result.\<close>

lemma first_call_on_bareConfig:
  "writeConfigurationDefaults P W (Some (JObj bareConfig)) configPath =
     (case W configPath (JObj reconciledBare) of
        Some e \<Rightarrow> Inl e
      | None \<Rightarrow>
         Inr \<lparr>config_after = Some (JObj reconciledBare),
              suggested_notes = sixSuggestions P @ [includeNote P],
              required_notes = sixRequirements P,
              written = Some (configPath, JObj reconciledBare)\<rparr>)"
  by (simp add: writeConfigurationDefaults_def getDesiredCompilerOptions_def bareConfig_def
      reconciledBare_def requiredOnly_def sixSuggestions_def sixRequirements_def
      applyInclude_def finish_def assignCompilerOption_def strictEq_def
      split: option.splits)

lemma second_call_on_bareConfig:
  "writeConfigurationDefaults P W (Some (JObj reconciledBare)) configPath =
     (case W configPath (JObj reconciledBare) of
        Some e \<Rightarrow> Inl e
      | None \<Rightarrow>
         Inr \<lparr>config_after = Some (JObj reconciledBare),
              suggested_notes = sixSuggestions P,
              required_notes = [],
              written = Some (configPath, JObj reconciledBare)\<rparr>)"
  by (simp add: writeConfigurationDefaults_def getDesiredCompilerOptions_def
      reconciledBare_def requiredOnly_def sixSuggestions_def
      applyInclude_def finish_def assignCompilerOption_def strictEq_def
      split: option.splits)

text \<open>
  The loop changes \<open>compilerOptions\<close> at the keys of required entries only, so the
  value under a suggested key is the same before and after
  \<open>writeConfigurationDefaults\<close>, for every configuration whose \<open>compilerOptions\<close>
  is an object.
\<close>

lemma applyCheck_options:
  assumes "config st = Some (JObj m)" and "m ''compilerOptions'' = Some (JObj co)"
  shows "\<exists>st' co1. applyCheck P st c = Inr st' \<and>
           config st' = Some (JObj (m(''compilerOptions'' \<mapsto> JObj co1))) \<and>
           (co1 = co \<or> (\<exists>k v r. c = (k, Required v r) \<and> co1 = co(k \<mapsto> v)))"
proof -
  have triv: "m(''compilerOptions'' \<mapsto> JObj co) = m"
    using assms(2) by (simp add: fun_upd_idem)
  obtain k chk where c: "c = (k, chk)" by (cases c)
  show ?thesis
  proof (cases chk)
    case (Suggested s)
    define st' where "st' = (if m k = None \<and> co k = None
                then st\<lparr>suggestedActions := suggestedActions st @ [suggestedNote P k s]\<rparr>
                else st)"
    have "applyCheck P st c = Inr st'"
      using applyCheck_suggested_eq[OF assms, of P k s] by (simp only: c Suggested st'_def)
    moreover have "config st' = Some (JObj (m(''compilerOptions'' \<mapsto> JObj co)))"
      using assms(1) by (simp add: st'_def triv)
    ultimately show ?thesis by blast
  next
    case (Required v r)
    show ?thesis
    proof (cases "strictEq (Some v) (co k)")
      case True
      have "applyCheck P st c = Inr st"
        using applyCheck_required_eq[OF assms, of P k v r] True by (simp only: c Required if_True)
      moreover have "config st = Some (JObj (m(''compilerOptions'' \<mapsto> JObj co)))"
        using assms(1) by (simp add: triv)
      ultimately show ?thesis by blast
    next
      case False
      define st' where "st' = st\<lparr>config := Some (JObj (m(''compilerOptions'' \<mapsto> JObj (co(k \<mapsto> v))))),
                        requiredActions := requiredActions st @ [requiredNote P k v r]\<rparr>"
      have "applyCheck P st c = Inr st'"
        using applyCheck_required_eq[OF assms, of P k v r] False
        by (simp only: c Required if_False st'_def)
      moreover have "config st' = Some (JObj (m(''compilerOptions'' \<mapsto> JObj (co(k \<mapsto> v)))))"
        by (simp add: st'_def)
      ultimately show ?thesis using c Required by blast
    qed
  qed
qed

lemma applyChecks_only_required:
  assumes "config st = Some (JObj m)" and "m ''compilerOptions'' = Some (JObj co)"
  shows "\<exists>st' co'.
     applyChecks P st cs = Inr st' \<and>
     config st' = Some (JObj (m(''compilerOptions'' \<mapsto> JObj co'))) \<and>
     (\<forall>k. co' k = co k \<or> (\<exists>v r. (k, Required v r) \<in> set cs \<and> co' k = Some v))"
  using assms
proof (induction cs arbitrary: st m co)
  case Nil
  have "m(''compilerOptions'' \<mapsto> JObj co) = m"
    using Nil(2) by (simp add: fun_upd_idem)
  then have "config st = Some (JObj (m(''compilerOptions'' \<mapsto> JObj co)))"
    using Nil(1) by simp
  moreover have "applyChecks P st [] = Inr st" by simp
  ultimately show ?case by blast
next
  case (Cons c cs)
  from applyCheck_options[OF Cons.prems, of P c] obtain st1 co1 where
    step: "applyCheck P st c = Inr st1"
    and c1: "config st1 = Some (JObj (m(''compilerOptions'' \<mapsto> JObj co1)))"
    and here: "co1 = co \<or> (\<exists>k v r. c = (k, Required v r) \<and> co1 = co(k \<mapsto> v))"
    by blast
  have c2: "(m(''compilerOptions'' \<mapsto> JObj co1)) ''compilerOptions'' = Some (JObj co1)"
    by simp
  from Cons.IH[OF c1 c2] obtain st' co' where
    rest: "applyChecks P st1 cs = Inr st'"
    and cfg: "config st' =
       Some (JObj ((m(''compilerOptions'' \<mapsto> JObj co1))(''compilerOptions'' \<mapsto> JObj co')))"
    and only: "\<forall>k. co' k = co1 k \<or> (\<exists>v r. (k, Required v r) \<in> set cs \<and> co' k = Some v)"
    by blast
  have run: "applyChecks P st (c # cs) = Inr st'"
    using step rest by simp
  have cfg': "config st' = Some (JObj (m(''compilerOptions'' \<mapsto> JObj co')))"
    using cfg by simp
  have "co' k = co k \<or> (\<exists>v r. (k, Required v r) \<in> set (c # cs) \<and> co' k = Some v)" for k
  proof -
    from only have A: "co' k = co1 k \<or> (\<exists>v r. (k, Required v r) \<in> set cs \<and> co' k = Some v)"
      by blast
    from here show ?thesis
    proof
      assume "co1 = co"
      with A show ?thesis by auto
    next
      assume "\<exists>k v r. c = (k, Required v r) \<and> co1 = co(k \<mapsto> v)"
      then obtain k' v' r' where c: "c = (k', Required v' r')" and co1: "co1 = co(k' \<mapsto> v')"
        by blast
      show ?thesis
      proof (cases "k = k'")
        case True
        from A show ?thesis
        proof
          assume "co' k = co1 k"
          then have "co' k = Some v'" using True co1 by simp
          then show ?thesis using c True by auto
        next
          assume "\<exists>v r. (k, Required v r) \<in> set cs \<and> co' k = Some v"
          then show ?thesis by auto
        qed
      next
        case False
        then have "co1 k = co k" using co1 by simp
        with A show ?thesis by auto
      qed
    qed
  qed
  with run cfg' show ?case by blast
qed

lemma table_suggested_not_required:
  assumes "(k, Suggested s) \<in> set getDesiredCompilerOptions"
  shows "(k, Required v r) \<notin> set getDesiredCompilerOptions"
  using assms by (auto simp: getDesiredCompilerOptions_def)

lemma suggested_value_never_stored:
  assumes "m ''compilerOptions'' = Some (JObj co)"
    and "(k, Suggested s) \<in> set getDesiredCompilerOptions"
    and "writeConfigurationDefaults P W (Some (JObj m)) configPath = Inr R"
  shows "\<exists>m' co'.
     config_after R = Some (JObj m') \<and>
     m' ''compilerOptions'' = Some (JObj co') \<and>
     co' k = co k"
proof -
  define st0 where "st0 = \<lparr>config = Some (JObj m), suggestedActions = [], requiredActions = []\<rparr>"
  have c0: "config st0 = Some (JObj m)" by (simp add: st0_def)
  from applyChecks_only_required[OF c0 assms(1), of P getDesiredCompilerOptions]
  obtain st1 co' where
    loop: "applyChecks P st0 getDesiredCompilerOptions = Inr st1"
    and c1: "config st1 = Some (JObj (m(''compilerOptions'' \<mapsto> JObj co')))"
    and only: "\<forall>k. co' k = co k \<or>
        (\<exists>v r. (k, Required v r) \<in> set getDesiredCompilerOptions \<and> co' k = Some v)"
    by blast
  have same: "co' k = co k"
    using only table_suggested_not_required[OF assms(2)] by blast
  define m' where "m' = (if (m(''compilerOptions'' \<mapsto> JObj co')) ''include'' \<noteq> None
                         then m(''compilerOptions'' \<mapsto> JObj co')
                         else (m(''compilerOptions'' \<mapsto> JObj co'))(''include'' \<mapsto> includeDefault))"
  have "\<exists>st2. applyInclude P st1 = Inr st2 \<and> config st2 = Some (JObj m')"
    using applyInclude_eq[OF c1, of P] c1 by (simp add: m'_def)
  then obtain st2 where incl: "applyInclude P st1 = Inr st2"
    and c2: "config st2 = Some (JObj m')"
    by blast
  have mco: "m' ''compilerOptions'' = Some (JObj co')" by (simp add: m'_def)
  have "finish W configPath st2 = Inr R"
    using loop incl assms(3) by (simp add: writeConfigurationDefaults_def st0_def)
  from finish_returns[OF this] c2 have "config_after R = Some (JObj m')" by simp
  then show ?thesis using mco same by blast
qed

text \<open>
  C1. The claim is that a suggested key that is absent at the top level and undefined in
  \<open>compilerOptions\<close> is set to the suggested value, so that a configuration missing
  \<open>strict\<close> has \<open>compilerOptions.strict === true\<close> afterwards. The code assigns
  the suggested value to the local variable \<open>optionValue\<close> (line 216) and never to
  \<open>config.compilerOptions[optionKey]\<close>: on \<open>{compilerOptions: {}}\<close> it records the
  note that \<open>strict\<close> was set and writes the file, and in the configuration it
  writes and returns (when the write does not throw) \<open>compilerOptions.strict\<close> is
  still undefined.
\<close>

theorem suggested_default_not_stored:
  "writeConfigurationDefaults P W (Some (JObj bareConfig)) configPath =
     (case W configPath (JObj reconciledBare) of
        Some e \<Rightarrow> Inl e
      | None \<Rightarrow>
         Inr \<lparr>config_after = Some (JObj reconciledBare),
              suggested_notes = sixSuggestions P @ [includeNote P],
              required_notes = sixRequirements P,
              written = Some (configPath, JObj reconciledBare)\<rparr>)
   \<and> reconciledBare ''compilerOptions'' = Some (JObj requiredOnly)
   \<and> requiredOnly ''strict'' = None
   \<and> suggestedNote P ''strict'' (JBool True) \<in> set (sixSuggestions P)
   \<and> suggestedNote P ''strict'' (JBool True) =
       blue P ''strict'' @ '' was set to '' @ bold P (JBool True)"
  using first_call_on_bareConfig[of P W configPath]
  by (simp add: reconciledBare_def requiredOnly_def sixSuggestions_def suggestedNote_def)

text \<open>
  C2. The claim is that a second call on the result of a first call records nothing and
  does not write. After the first call on \<open>{compilerOptions: {}}\<close> the suggested keys
  are still undefined, so the second call records the six suggestions again and calls
  \<open>fs.writeFileSync\<close> again; the configuration itself is the same after both calls.
\<close>

theorem second_call_records_and_writes_again:
  "writeConfigurationDefaults P W (Some (JObj bareConfig)) configPath =
     (case W configPath (JObj reconciledBare) of
        Some e \<Rightarrow> Inl e
      | None \<Rightarrow>
         Inr \<lparr>config_after = Some (JObj reconciledBare),
              suggested_notes = sixSuggestions P @ [includeNote P],
              required_notes = sixRequirements P,
              written = Some (configPath, JObj reconciledBare)\<rparr>)
   \<and> writeConfigurationDefaults P W (Some (JObj reconciledBare)) configPath =
     (case W configPath (JObj reconciledBare) of
        Some e \<Rightarrow> Inl e
      | None \<Rightarrow>
         Inr \<lparr>config_after = Some (JObj reconciledBare),
              suggested_notes = sixSuggestions P,
              required_notes = [],
              written = Some (configPath, JObj reconciledBare)\<rparr>)
   \<and> length (sixSuggestions P) = 6"
  using first_call_on_bareConfig[of P W configPath] second_call_on_bareConfig[of P W configPath]
  by (simp add: sixSuggestions_def)

section \<open>A failing write, and an array as compilerOptions\<close>

text \<open>
  When \<open>fs.writeFileSync\<close> throws, the function throws. When \<open>compilerOptions\<close> is an
  array, the required values become named properties of the array, and the next call
  reads them back: it records no mandatory change.
\<close>

lemma array_options_first_call:
  "writeConfigurationDefaults P W
      (Some (JObj [''include'' \<mapsto> JArr [], ''compilerOptions'' \<mapsto> JArr []])) configPath =
     (case W configPath (JObj [''include'' \<mapsto> JArr [], ''compilerOptions'' \<mapsto> JArrP [] requiredOnly]) of
        Some e \<Rightarrow> Inl e
      | None \<Rightarrow>
         Inr \<lparr>config_after =
                Some (JObj [''include'' \<mapsto> JArr [], ''compilerOptions'' \<mapsto> JArrP [] requiredOnly]),
              suggested_notes = sixSuggestions P,
              required_notes = sixRequirements P,
              written = Some (configPath,
                JObj [''include'' \<mapsto> JArr [], ''compilerOptions'' \<mapsto> JArrP [] requiredOnly])\<rparr>)"
  by (simp add: writeConfigurationDefaults_def getDesiredCompilerOptions_def
      requiredOnly_def sixSuggestions_def sixRequirements_def
      applyInclude_def finish_def assignCompilerOption_def strictEq_def
      split: option.splits)

lemma array_options_second_call:
  "writeConfigurationDefaults P W
      (Some (JObj [''include'' \<mapsto> JArr [], ''compilerOptions'' \<mapsto> JArrP [] requiredOnly])) configPath =
     (case W configPath (JObj [''include'' \<mapsto> JArr [], ''compilerOptions'' \<mapsto> JArrP [] requiredOnly]) of
        Some e \<Rightarrow> Inl e
      | None \<Rightarrow>
         Inr \<lparr>config_after =
                Some (JObj [''include'' \<mapsto> JArr [], ''compilerOptions'' \<mapsto> JArrP [] requiredOnly]),
              suggested_notes = sixSuggestions P,
              required_notes = [],
              written = Some (configPath,
                JObj [''include'' \<mapsto> JArr [], ''compilerOptions'' \<mapsto> JArrP [] requiredOnly])\<rparr>)"
  by (simp add: writeConfigurationDefaults_def getDesiredCompilerOptions_def
      requiredOnly_def sixSuggestions_def sixRequirements_def
      applyInclude_def finish_def assignCompilerOption_def strictEq_def
      split: option.splits)

lemma failed_write_is_thrown:
  "writeConfigurationDefaults P (\<lambda>p c. Some IOError) (Some (JObj bareConfig)) configPath =
     Inl IOError"
  using first_call_on_bareConfig[of P "\<lambda>p c. Some IOError" configPath] by simp

section \<open>The result of the loader\<close>

text \<open>
  C7. Whenever the loader returns a result whose \<open>tsConfigPath\<close> is absent, its
  \<open>baseUrl\<close> and its \<open>paths\<close> are absent too.
\<close>

theorem absent_configPath_absent_options:
  assumes "loadSync P J processCwd F cwd = Some (Inr (res, w))"
    and "tsConfigPath res = None"
  shows "baseUrl res = None \<and> paths res = None"
  using assms
  by (auto simp: loadSync_def split: option.splits sum.splits if_splits)

text \<open>A root directory without configuration files: the walk stops at once.\<close>

lemma walk_root: "walkForTsConfig ''/'' (\<lambda>p. False) = Some None"
  by (subst walkForTsConfig.simps) (simp add: path_join_def normalize_def normalizeString_def)

theorem absent_configPath_absent_options_witness:
  "loadSync plainPrinters noJson5 ''/'' emptyRoot ''/'' =
      Some (Inr (\<lparr>tsConfigPath = None, baseUrl = None, paths = None\<rparr>, None)) \<and>
   tsConfigPath \<lparr>tsConfigPath = None, baseUrl = None, paths = None\<rparr> = None \<and>
   baseUrl \<lparr>tsConfigPath = None, baseUrl = None, paths = None\<rparr> = None \<and>
   paths \<lparr>tsConfigPath = None, baseUrl = None, paths = None\<rparr> = None"
proof -
  have run: "loadSync plainPrinters noJson5 ''/'' emptyRoot ''/'' =
      Some (Inr (\<lparr>tsConfigPath = None, baseUrl = None, paths = None\<rparr>, None))"
    by (simp add: loadSync_def resolveConfigPath_def emptyRoot_def walk_root)
  show ?thesis
    using run absent_configPath_absent_options[OF run] by simp
qed

section \<open>The suffix of an extends reference\<close>

text \<open>\<open>indexOf\<close> is \<open>-1\<close> exactly when the pattern does not occur.\<close>

lemma indexOfFrom_absent: "indexOfFrom i s pat = - 1 \<longleftrightarrow> \<not> sublist pat s"
proof (induction s arbitrary: i)
  case Nil
  then show ?case by simp
next
  case (Cons c cs)
  show ?case
  proof (cases "prefix pat (c # cs)")
    case True
    then have "sublist pat (c # cs)" by (simp add: sublist_Cons_right)
    with True show ?thesis by simp
  next
    case False
    then show ?thesis using Cons.IH[of "Suc i"] by (simp add: sublist_Cons_right)
  qed
qed

text \<open>
  C9, as the code has it. The parser appends \<open>.json\<close> to a reference exactly when
  the text \<open>.json\<close> occurs nowhere in it, whatever extension the reference has, and
  leaves every other reference as it is.
\<close>

theorem withJsonSuffix_iff_no_json:
  "withJsonSuffix ref = (if sublist ''.json'' ref then ref else ref @ ''.json'')"
  by (simp add: withJsonSuffix_def indexOf_def indexOfFrom_absent)

text \<open>
  C9 as stated fails: \<open>./conf.json.d/base\<close> has no file extension, and nothing is
  appended to it, since \<open>.json\<close> occurs in the name of its directory.
\<close>

theorem json_suffix_counterexample:
  "\<not> spec_hasFileExtension ''./conf.json.d/base'' \<and>
   withJsonSuffix ''./conf.json.d/base'' = ''./conf.json.d/base''"
  by (simp add: spec_hasFileExtension_def withJsonSuffix_def indexOf_def)

text \<open>In the other direction, \<open>./tsconfig.base\<close> has an extension and gets the suffix.\<close>

lemma extension_yet_suffixed:
  "withJsonSuffix ''./tsconfig.base'' = ''./tsconfig.base.json''"
  by (simp add: withJsonSuffix_def indexOf_def)

section \<open>The upward walk\<close>

text \<open>One step of the walk, in the vocabulary above.\<close>

lemma walk_unfold:
  "walkForTsConfig D ex =
    (case find ex (candidates D) of
       Some p \<Rightarrow> Some (Some p)
     | None \<Rightarrow> if D = parentDirectory D then Some None
               else walkForTsConfig (parentDirectory D) ex)"
  by (subst walkForTsConfig.simps) (simp add: candidates_def parentDirectory_def)

lemma find_append_cases:
  "find P (xs @ ys) = (case find P xs of Some x \<Rightarrow> Some x | None \<Rightarrow> find P ys)"
  by (induction xs) auto

lemma upward_fixed:
  "parentDirectory D = D \<Longrightarrow> set (upward n D) = {D}"
  by (induction n) auto

text \<open>
  If the directory reached after \<open>n\<close> steps is its own parent, the walk returns, and
  its result is the first existing file among the candidates of the visited directories,
  \<open>tsconfig.json\<close> before \<open>jsconfig.json\<close> in each; \<open>undefined\<close> if there is
  none.
\<close>

lemma walk_returns_first_config:
  assumes "parentDirectory (last (upward n D)) = last (upward n D)"
  shows "walkForTsConfig D ex = Some (find ex (concat (map candidates (upward n D))))"
  using assms
proof (induction n arbitrary: D)
  case 0
  then have "parentDirectory D = D" by simp
  then show ?case
    by (subst walk_unfold) (simp split: option.splits)
next
  case (Suc n)
  have last_eq: "last (upward (Suc n) D) = last (upward n (parentDirectory D))"
    by (cases n) simp_all
  have IH: "walkForTsConfig (parentDirectory D) ex =
      Some (find ex (concat (map candidates (upward n (parentDirectory D)))))"
    using Suc.IH[of "parentDirectory D"] Suc.prems last_eq by simp
  show ?case
  proof (cases "find ex (candidates D)")
    case (Some p)
    then show ?thesis
      by (subst walk_unfold) (simp add: find_append_cases)
  next
    case None
    show ?thesis
    proof (cases "D = parentDirectory D")
      case True
      then have "set (upward n (parentDirectory D)) = {D}"
        using upward_fixed[of D n] by simp
      then have "\<forall>d \<in> set (upward n (parentDirectory D)). find ex (candidates d) = None"
        using None by simp
      then have "find ex (concat (map candidates (upward n (parentDirectory D)))) = None"
        by (induction "upward n (parentDirectory D)") (auto simp: find_append_cases find_None_iff)
      with None True show ?thesis
        by (subst walk_unfold) (simp add: find_append_cases)
    next
      case False
      with None IH show ?thesis
        by (subst walk_unfold) (simp add: find_append_cases)
    qed
  qed
qed

text \<open>
  From every starting directory, absolute or not: if one of the directories visited in
  \<open>n\<close> steps has a configuration file, the walk returns the first one, \<open>tsconfig.json\<close>
  before \<open>jsconfig.json\<close> in each directory.
\<close>

lemma find_candidates_fixed:
  assumes "D = parentDirectory D" and "find ex (candidates D) = None"
  shows "find ex (concat (map candidates (upward n D))) = None"
proof -
  have "set (upward n D) = {D}"
    using upward_fixed[of D n] assms(1) by simp
  then have "\<forall>d \<in> set (upward n D). find ex (candidates d) = None"
    using assms(2) by simp
  then show ?thesis
    by (induction "upward n D") (auto simp: find_append_cases find_None_iff)
qed

lemma walk_returns_first_hit:
  assumes "find ex (concat (map candidates (upward n D))) = Some p"
  shows "walkForTsConfig D ex = Some (Some p)"
  using assms
proof (induction n arbitrary: D)
  case 0
  then show ?case
    by (subst walk_unfold) simp
next
  case (Suc n)
  show ?case
  proof (cases "find ex (candidates D)")
    case (Some q)
    with Suc.prems have "q = p" by (simp add: find_append_cases)
    with Some show ?thesis by (subst walk_unfold) simp
  next
    case None
    with Suc.prems have rest:
      "find ex (concat (map candidates (upward n (parentDirectory D)))) = Some p"
      by (simp add: find_append_cases)
    have "D \<noteq> parentDirectory D"
    proof
      assume fixed: "D = parentDirectory D"
      from find_candidates_fixed[OF fixed None, of n] fixed rest show False by simp
    qed
    with None Suc.IH[OF rest] show ?thesis
      by (subst walk_unfold) simp
  qed
qed

subsection \<open>An absolute directory reaches the root\<close>

lemma splitSlash_nonempty: "splitSlash s \<noteq> []"
  by (induction s) (auto split: list.splits)

lemma splitSlash_append: "splitSlash (a @ CHR ''/'' # b) = splitSlash a @ splitSlash b"
proof (induction a)
  case Nil
  then show ?case by simp
next
  case (Cons c a)
  show ?case
  proof (cases "c = CHR ''/''")
    case True
    then show ?thesis using Cons by simp
  next
    case False
    obtain seg segs where sp: "splitSlash a = seg # segs"
      using splitSlash_nonempty[of a] by (cases "splitSlash a") auto
    then show ?thesis using False Cons by simp
  qed
qed

lemma splitSlash_noslash: "CHR ''/'' \<notin> set s \<Longrightarrow> splitSlash s = [s]"
  by (induction s) auto

lemma splitSlash_segments: "seg \<in> set (splitSlash s) \<Longrightarrow> CHR ''/'' \<notin> set seg"
proof (induction s arbitrary: seg)
  case Nil
  then show ?case by simp
next
  case (Cons c s)
  show ?case
  proof (cases "c = CHR ''/''")
    case True
    then show ?thesis using Cons by auto
  next
    case False
    obtain x xs where sp: "splitSlash s = x # xs"
      using splitSlash_nonempty[of s] by (cases "splitSlash s") auto
    with False Cons.prems have "seg = c # x \<or> seg \<in> set xs" by simp
    then show ?thesis
    proof
      assume "seg = c # x"
      moreover have "CHR ''/'' \<notin> set x" using Cons.IH[of x] sp by simp
      ultimately show ?thesis using False by simp
    next
      assume "seg \<in> set xs"
      then show ?thesis using Cons.IH[of seg] sp by simp
    qed
  qed
qed

lemma normalizeSegments_append:
  "normalizeSegments a res (xs @ ys) = normalizeSegments a (normalizeSegments a res xs) ys"
  by (cases a; induction xs arbitrary: res) simp_all

lemma normalizeSegments_plain_result:
  assumes "\<forall>s \<in> set res. plainSegment s" and "\<forall>s \<in> set xs. CHR ''/'' \<notin> set s"
  shows "\<forall>s \<in> set (normalizeSegments False res xs). plainSegment s"
  using assms
proof (induction xs arbitrary: res)
  case Nil
  then show ?case by simp
next
  case (Cons x xs)
  have bl: "\<forall>s \<in> set (butlast res). plainSegment s"
    using Cons.prems(1) by (meson in_set_butlastD)
  have ext: "x \<noteq> [] \<Longrightarrow> x \<noteq> ''.'' \<Longrightarrow> x \<noteq> ''..'' \<Longrightarrow> \<forall>s \<in> set (res @ [x]). plainSegment s"
    using Cons.prems by (simp add: plainSegment_def)
  have rest: "\<forall>s \<in> set xs. CHR ''/'' \<notin> set s" using Cons.prems(2) by simp
  show ?case
    using Cons.IH[OF Cons.prems(1) rest] Cons.IH[OF bl rest] Cons.IH[OF ext rest]
    by simp
qed

lemma normalizeSegments_plain:
  "\<forall>s \<in> set xs. plainSegment s \<Longrightarrow> normalizeSegments a res xs = res @ xs"
  by (induction xs arbitrary: res) (simp_all add: plainSegment_def)

lemma joinSlash_Cons: "segs \<noteq> [] \<Longrightarrow> joinSlash (seg # segs) = seg @ CHR ''/'' # joinSlash segs"
  by (cases segs) simp_all

lemma splitSlash_joinSlash:
  assumes "segs \<noteq> []" and "\<forall>s \<in> set segs. CHR ''/'' \<notin> set s"
  shows "splitSlash (joinSlash segs) = segs"
  using assms
proof (induction segs)
  case Nil
  then show ?case by simp
next
  case (Cons seg segs)
  show ?case
  proof (cases "segs = []")
    case True
    then show ?thesis using Cons.prems by (simp add: splitSlash_noslash)
  next
    case False
    then show ?thesis
      using Cons by (simp add: joinSlash_Cons splitSlash_append splitSlash_noslash)
  qed
qed

lemma joinSlash_nonempty:
  assumes "segs \<noteq> []" and "\<forall>s \<in> set segs. plainSegment s"
  shows "joinSlash segs \<noteq> []"
  using assms by (cases segs rule: joinSlash.cases) (simp_all add: plainSegment_def)

lemma plain_segments_of:
  "\<forall>s \<in> set (normalizeSegments False [] (splitSlash D)). plainSegment s"
  using normalizeSegments_plain_result[of "[]" "splitSlash D"] splitSlash_segments by auto

lemma parent_of_absolute:
  assumes "D \<noteq> []" and "hd D = CHR ''/''"
  shows "parentDirectory D = dirOf (butlast (normalizeSegments False [] (splitSlash D)))"
proof -
  define S where "S = normalizeSegments False [] (splitSlash D)"
  define X where "X = D @ CHR ''/'' # ''../''"
  have plain: "\<forall>s \<in> set S. plainSegment s"
    unfolding S_def by (rule plain_segments_of)
  have "splitSlash X = splitSlash D @ [''..'', []]"
    unfolding X_def by (simp add: splitSlash_append)
  then have "normalizeSegments False [] (splitSlash X) = normalizeSegments False S [''..'', []]"
    by (simp add: normalizeSegments_append S_def)
  also have "\<dots> = butlast S"
  proof (cases "S = []")
    case True
    then show ?thesis by simp
  next
    case False
    then have "plainSegment (last S)" using plain by simp
    then have "last S \<noteq> ''..''" by (auto simp: plainSegment_def)
    with False show ?thesis by simp
  qed
  finally have segs: "normalizeSegments False [] (splitSlash X) = butlast S" .
  have plain': "\<forall>s \<in> set (butlast S). plainSegment s"
    using plain by (meson in_set_butlastD)
  have X1: "X \<noteq> []" and X2: "hd X = CHR ''/''" and X3: "last X = CHR ''/''"
    using assms by (simp_all add: X_def)
  have "normalize X = dirOf (butlast S)"
    using joinSlash_nonempty[OF _ plain']
    by (simp add: normalize_def normalizeString_def segs X1 X2 X3 Let_def dirOf_def)
  moreover have "path_join [D, ''../''] = normalize X"
    using assms(1) by (simp add: path_join_def X_def)
  ultimately show ?thesis by (simp add: parentDirectory_def S_def)
qed

lemma segments_of_dirOf:
  assumes "\<forall>s \<in> set segs. plainSegment s"
  shows "normalizeSegments False [] (splitSlash (dirOf segs)) = segs"
proof (cases "segs = []")
  case True
  then show ?thesis by (simp add: dirOf_def)
next
  case False
  have noslash: "\<forall>s \<in> set segs. CHR ''/'' \<notin> set s"
    using assms by (simp add: plainSegment_def)
  have "dirOf segs = [] @ CHR ''/'' # (joinSlash segs @ CHR ''/'' # [])"
    using False by (simp add: dirOf_def)
  then have "splitSlash (dirOf segs) = [[]] @ segs @ [[]]"
    using splitSlash_joinSlash[OF False noslash]
    by (simp only: splitSlash_append) simp
  then show ?thesis
    using assms by (simp add: normalizeSegments_append normalizeSegments_plain)
qed

lemma dirOf_absolute: "dirOf segs \<noteq> [] \<and> hd (dirOf segs) = CHR ''/''"
  by (simp add: dirOf_def)

lemma parent_of_dirOf:
  assumes "\<forall>s \<in> set segs. plainSegment s"
  shows "parentDirectory (dirOf segs) = dirOf (butlast segs)"
  using parent_of_absolute[of "dirOf segs"] dirOf_absolute[of segs] segments_of_dirOf[OF assms]
  by simp

lemma last_upward: "last (upward (Suc n) D) = last (upward n (parentDirectory D))"
  by (cases n) simp_all

lemma upward_dirOf_reaches_root:
  assumes "\<forall>s \<in> set segs. plainSegment s"
  shows "last (upward (length segs) (dirOf segs)) = ''/''"
  using assms
proof (induction "length segs" arbitrary: segs)
  case 0
  then show ?case by (simp add: dirOf_def)
next
  case (Suc n)
  have plain': "\<forall>s \<in> set (butlast segs). plainSegment s"
    using Suc.prems by (meson in_set_butlastD)
  have len: "n = length (butlast segs)" using Suc.hyps(2) by simp
  have "last (upward (Suc n) (dirOf segs)) = last (upward n (dirOf (butlast segs)))"
    by (simp only: last_upward parent_of_dirOf[OF Suc.prems])
  also have "\<dots> = ''/''"
    using Suc.hyps(1)[OF len plain'] len by simp
  finally show ?case using Suc.hyps(2) by simp
qed

lemma root_is_fixed: "parentDirectory ''/'' = ''/''"
  by (simp add: parentDirectory_def path_join_def normalize_def normalizeString_def)

lemma absolute_reaches_root:
  assumes "D \<noteq> []" and "hd D = CHR ''/''"
  shows "\<exists>n. last (upward n D) = ''/''"
proof -
  define S where "S = butlast (normalizeSegments False [] (splitSlash D))"
  have plain: "\<forall>s \<in> set S. plainSegment s"
    unfolding S_def using plain_segments_of[of D] by (meson in_set_butlastD)
  have "last (upward (Suc (length S)) D) = last (upward (length S) (dirOf S))"
    by (simp only: last_upward parent_of_absolute[OF assms] S_def)
  also have "\<dots> = ''/''" by (rule upward_dirOf_reaches_root[OF plain])
  finally show ?thesis by blast
qed

text \<open>
  From every absolute directory the upward chain reaches the root \<open>/\<close>, the walk
  returns, and its result is the first existing file among \<open>tsconfig.json\<close> and
  \<open>jsconfig.json\<close> of the directories of the chain, taken in that order in each
  directory and from the starting directory upward; it is \<open>undefined\<close> when no
  directory up to the root has either file.
\<close>

lemma walk_from_absolute_directory:
  assumes "D \<noteq> []" and "hd D = CHR ''/''"
  shows "\<exists>n. last (upward n D) = ''/'' \<and>
             walkForTsConfig D ex = Some (find ex (concat (map candidates (upward n D))))"
proof -
  from absolute_reaches_root[OF assms] obtain n where n: "last (upward n D) = ''/''" by blast
  then have "parentDirectory (last (upward n D)) = last (upward n D)"
    by (simp add: root_is_fixed)
  from walk_returns_first_config[OF this, of ex] n show ?thesis by blast
qed

text \<open>In a project under \<open>/app\<close>, the walk from \<open>/app/src\<close> finds \<open>/app/tsconfig.json\<close>.\<close>

lemma walk_app: "walkForTsConfig ''/app/src'' appFiles = Some (Some ''/app/tsconfig.json'')"
  apply (subst walkForTsConfig.simps)
  apply (simp add: path_join_def normalize_def normalizeString_def appFiles_def)
  apply (subst walkForTsConfig.simps)
  apply (simp add: path_join_def normalize_def normalizeString_def appFiles_def)
  done

subsection \<open>A relative directory does not\<close>

text \<open>
  The parent of \<open>.\<close> is \<open>../\<close>, whose parent is \<open>../../\<close>, and so on: no
  directory of this chain equals its parent.
\<close>

lemma splitSlash_ups: "splitSlash (ups k @ t) = replicate k ''..'' @ splitSlash t"
  by (induction k) simp_all

lemma normalizeSegments_dotdots:
  "normalizeSegments True (replicate j ''..'') (replicate k ''..'' @ rest) =
     normalizeSegments True (replicate (j + k) ''..'') rest"
proof (induction k arbitrary: j)
  case 0
  then show ?case by simp
next
  case (Suc k)
  have "normalizeSegments True (replicate j ''..'') (replicate (Suc k) ''..'' @ rest) =
        normalizeSegments True (replicate j ''..'' @ [''..'']) (replicate k ''..'' @ rest)"
    by (cases j) simp_all
  also have "replicate j ''..'' @ [''..''] = replicate (Suc j) ''..''"
    by (simp add: replicate_append_same)
  finally show ?case using Suc.IH[of "Suc j"] by simp
qed

lemma joinSlash_dotdots: "joinSlash (replicate (Suc m) ''..'') @ ''/'' = ups (Suc m)"
  by (induction m) simp_all

lemma parent_of_ups: "parentDirectory (ups (Suc n)) = ups (Suc (Suc n))"
proof -
  define X where "X = ups (Suc n) @ ''/../''"
  have split: "splitSlash X = replicate (Suc n) ''..'' @ [[], ''..'', []]"
    unfolding X_def by (simp only: splitSlash_ups) simp
  have "normalizeSegments True [] (replicate (Suc n) ''..'' @ [[], ''..'', []]) =
        normalizeSegments True (replicate (Suc n) ''..'') [[], ''..'', []]"
    using normalizeSegments_dotdots[of 0 "Suc n" "[[], ''..'', []]"] by simp
  also have "\<dots> = replicate (Suc n) ''..'' @ [''..'']"
    by simp
  also have "\<dots> = replicate (Suc (Suc n)) ''..''"
    by (simp add: replicate_append_same)
  finally have segs: "normalizeSegments True [] (splitSlash X) = replicate (Suc (Suc n)) ''..''"
    using split by simp
  have ne: "joinSlash (replicate (Suc (Suc n)) ''..'') \<noteq> []"
    by simp
  have X1: "X \<noteq> []" and X2: "hd X = CHR ''.''" and X3: "last X = CHR ''/''"
    by (simp_all add: X_def)
  have "normalize X = joinSlash (replicate (Suc (Suc n)) ''..'') @ ''/''"
    using ne by (simp add: normalize_def normalizeString_def segs X1 X2 X3 Let_def
        del: replicate.simps)
  moreover have "path_join [ups (Suc n), ''../''] = normalize X"
    by (simp add: path_join_def X_def)
  ultimately show ?thesis
    using joinSlash_dotdots[of "Suc n"]
    by (simp add: parentDirectory_def del: replicate.simps ups.simps)
qed

lemma length_ups: "length (ups n) = 3 * n"
  by (induction n) simp_all

lemma ups_not_fixed: "ups (Suc n) \<noteq> parentDirectory (ups (Suc n))"
proof
  assume "ups (Suc n) = parentDirectory (ups (Suc n))"
  then have "length (ups (Suc n)) = length (ups (Suc (Suc n)))"
    by (simp only: parent_of_ups)
  then show False by (simp only: length_ups) simp
qed

lemma parent_of_dot: "parentDirectory ''.'' = ups (Suc 0)"
  by (simp add: parentDirectory_def path_join_def normalize_def normalizeString_def)

lemma walk_diverges_aux:
  assumes "walkForTsConfig D ex = Some y"
  shows "\<not> ((\<forall>p. \<not> ex p) \<and> (D = ''.'' \<or> (\<exists>n. D = ups (Suc n))))"
proof (rule walkForTsConfig.raw_induct
    [where P = "\<lambda>D ex y. \<not> ((\<forall>p. \<not> ex p) \<and> (D = ''.'' \<or> (\<exists>n. D = ups (Suc n))))",
     OF _ assms])
  fix walk :: "string \<Rightarrow> (string \<Rightarrow> bool) \<Rightarrow> string option option"
    and D ex y
  assume IH: "\<And>D ex y. walk D ex = Some y \<Longrightarrow>
      \<not> ((\<forall>p. \<not> ex p) \<and> (D = ''.'' \<or> (\<exists>n. D = ups (Suc n))))"
  assume body: "(if ex (path_join [D, ''./tsconfig.json''])
      then Some (Some (path_join [D, ''./tsconfig.json'']))
      else if ex (path_join [D, ''./jsconfig.json''])
           then Some (Some (path_join [D, ''./jsconfig.json'']))
           else if D = path_join [D, ''../''] then Some None
                else walk (path_join [D, ''../'']) ex) = Some y"
  show "\<not> ((\<forall>p. \<not> ex p) \<and> (D = ''.'' \<or> (\<exists>n. D = ups (Suc n))))"
  proof
    assume A: "(\<forall>p. \<not> ex p) \<and> (D = ''.'' \<or> (\<exists>n. D = ups (Suc n)))"
    then have nofile: "\<forall>p. \<not> ex p" by simp
    from A have "D \<noteq> parentDirectory D \<and> (\<exists>n. parentDirectory D = ups (Suc n))"
    proof (elim conjE disjE exE)
      assume "D = ''.''"
      then have "D \<noteq> parentDirectory D" and "parentDirectory D = ups (Suc 0)"
        using parent_of_dot by simp_all
      then show ?thesis by blast
    next
      fix n assume "D = ups (Suc n)"
      then have "D \<noteq> parentDirectory D" and "parentDirectory D = ups (Suc (Suc n))"
        using parent_of_ups[of n] ups_not_fixed[of n] by (simp_all del: ups.simps)
      then show ?thesis by blast
    qed
    then have ne: "D \<noteq> path_join [D, ''../'']"
      and nxt: "\<exists>n. path_join [D, ''../''] = ups (Suc n)"
      by (simp_all add: parentDirectory_def)
    from body nofile ne have "walk (path_join [D, ''../'']) ex = Some y"
      by simp
    from IH[OF this] nofile nxt show False by blast
  qed
qed

text \<open>
  C8. The claim is that from every starting directory the walk returns the first
  configuration file found upward, and \<open>undefined\<close> when no directory up to the root
  has one; the comment on line 90 names the stop (\<open>If we reached the top\<close>). From the
  relative directory \<open>.\<close>, with no configuration file anywhere, the test on line 91
  never holds, since the parents are \<open>../\<close>, \<open>../../\<close> and so on: the walk does not
  return \<open>undefined\<close>, it does not return at all.
\<close>

theorem walk_from_dot_never_returns: "walkForTsConfig ''.'' noFile = None"
proof (cases "walkForTsConfig ''.'' noFile")
  case None
  then show ?thesis .
next
  case (Some y)
  from walk_diverges_aux[OF this] show ?thesis by (simp add: noFile_def)
qed

section \<open>Resolving extends\<close>











subsection \<open>A reference to a file that does not exist\<close>



subsection \<open>Merging with the base\<close>




end
